theory Spec2Isabelle
  imports
    Complex_Main
    "HOL-Library.Char_ord"
    "HOL-Library.List_Lexorder"
    "HOL-Library.Product_Lexorder"
    "HOL-Library.Multiset"
    "HOL-Library.AList"
    "HOL-Library.Log_Nat"
    "HOL-Library.Monad_Syntax"
begin

section \<open>Data model (src/app/page.tsx, lines 7-60)\<close>

datatype TrainingFocus = Strength | Hypertrophy | Conditioning | Mobility | Skill | Recovery

datatype Intensity = Low | Medium | High

datatype DayKey = Monday | Tuesday | Wednesday | Thursday | Friday | Saturday | Sunday

text \<open>
  \<open>Omit<Session, "id">\<close> is the record \<open>Draft\<close>; \<open>Session\<close> extends it with the
  identifier (the field \<open>id\<close> of the source is \<open>session_id\<close> here, \<open>id\<close> being the
  identity function of HOL). \<open>duration\<close> is a JavaScript number; the model has the
  integer ones, as the form produces them, so the field is an \<open>int\<close>. What the page
  computes with them is computed in doubles (see \<open>fl\<close> below).
  \<open>notes\<close> is optional: \<open>None\<close> is the property being absent.
\<close>

record Draft =
  name :: string
  focus :: TrainingFocus
  intensity :: Intensity
  day :: DayKey
  start :: string
  duration :: int
  location :: string
  "notes" :: "string option"
  completed :: bool

record Session = Draft +
  session_id :: string

definition DAYS :: "DayKey list" where
  "DAYS = [Monday, Tuesday, Wednesday, Thursday, Friday, Saturday, Sunday]"

definition TRAINING_FOCI :: "TrainingFocus list" where
  "TRAINING_FOCI = [Strength, Hypertrophy, Conditioning, Mobility, Skill, Recovery]"

definition INTENSITIES :: "Intensity list" where
  "INTENSITIES = [Low, Medium, High]"

text \<open>The elements of \<open>SESSION_TEMPLATES\<close>:
  \<open>Pick<Session, "name" | "focus" | "intensity" | "duration" | "notes" | "location">\<close>.\<close>

record Template =
  t_name :: string
  t_focus :: TrainingFocus
  t_intensity :: Intensity
  t_duration :: int
  t_location :: string
  t_notes :: "string option"

definition SESSION_TEMPLATES :: "Template list" where
  "SESSION_TEMPLATES = [
     \<lparr>t_name = ''Lower Body Power'', t_focus = Strength, t_intensity = High,
      t_duration = 75, t_location = ''Main Weight Room'',
      t_notes = Some ''Hang power cleans, front squats, speed deadlifts, sled pushes. Finish with core anti-rotation.''\<rparr>,
     \<lparr>t_name = ''Upper Body Push-Pull'', t_focus = Hypertrophy, t_intensity = Medium,
      t_duration = 65, t_location = ''Training Floor'',
      t_notes = Some ''Superset incline bench + chest-supported rows. Giant set shoulders + arms. Finish with accessory chest/back.''\<rparr>,
     \<lparr>t_name = ''Tempo Run + Intervals'', t_focus = Conditioning, t_intensity = High,
      t_duration = 50, t_location = ''Track / Treadmill'',
      t_notes = Some ''10 min build, 3x8 min @ goal pace with 2 min float, finish with 6x30s hard sprints.''\<rparr>,
     \<lparr>t_name = ''Controlled Mobility Flow'', t_focus = Mobility, t_intensity = Low,
      t_duration = 40, t_location = ''Studio B'',
      t_notes = Some ''CARS sequence, dynamic hip openers, thoracic rotation work, loaded carries for range control.''\<rparr>,
     \<lparr>t_name = ''Olympic Lifting Technique'', t_focus = Skill, t_intensity = Medium,
      t_duration = 55, t_location = ''Platform Area'',
      t_notes = Some ''Snatch technical ladder, pause variations, jerk footwork, pulls with tempo focus.''\<rparr>,
     \<lparr>t_name = ''Active Recovery Ride'', t_focus = Recovery, t_intensity = Low,
      t_duration = 35, t_location = ''Spin Room'',
      t_notes = Some ''Zone 2 spin, breathing drills, finish with light band work and foam rolling.''\<rparr>]"

definition DEFAULT_SESSION :: Draft where
  "DEFAULT_SESSION =
     \<lparr>name = ''Untitled Session'', focus = Strength, intensity = Medium, day = Monday,
      start = ''07:00'', duration = 60, location = ''Main Floor'', notes = Some [],
      completed = False\<rparr>"

section \<open>Identifier generator (lines 151-156)\<close>

text \<open>
  \<open>generateId\<close> returns \<open>crypto.randomUUID()\<close> or, without it, a base-36 rendering of
  \<open>Math.random()\<close>: in both branches a string drawn from the host's random source. The
  random source is the explicit state \<open>entropy\<close>, the sequence of strings the following
  calls will draw; a call takes the first and leaves the rest.
\<close>

type_synonym entropy = "nat \<Rightarrow> string"

definition generateId :: "entropy \<Rightarrow> string \<times> entropy" where
  "generateId e = (e 0, \<lambda>n. e (Suc n))"

section \<open>Balance seeder (lines 180-198)\<close>

definition daysSequence :: "DayKey list" where
  "daysSequence = [Monday, Tuesday, Wednesday, Thursday, Friday, Saturday, Sunday]"

definition baseTimes :: "string list" where
  "baseTimes = [''06:30'', ''07:00'', ''18:00'', ''09:00'', ''08:30'', ''10:00'']"

text \<open>The callback of \<open>map\<close>: \<open>{id: generateId(), day: ..., start: ..., completed: false,
  ...template}\<close>; the template has none of the four keys set before the spread.\<close>

definition seedSession :: "Template \<Rightarrow> nat \<Rightarrow> string \<Rightarrow> Session" where
  "seedSession template index i =
     \<lparr>name = t_name template, focus = t_focus template, intensity = t_intensity template,
      day = daysSequence ! (index mod length daysSequence),
      start = baseTimes ! (index mod length baseTimes),
      duration = t_duration template, location = t_location template,
      notes = t_notes template, completed = False, session_id = i\<rparr>"

fun seedFrom :: "nat \<Rightarrow> Template list \<Rightarrow> entropy \<Rightarrow> Session list \<times> entropy" where
  "seedFrom index [] e = ([], e)"
| "seedFrom index (template # rest) e =
     (case generateId e of (i, e1) \<Rightarrow>
        (case seedFrom (Suc index) rest e1 of (ss, e2) \<Rightarrow>
           (seedSession template index i # ss, e2)))"

definition suggestBalancedWeek :: "entropy \<Rightarrow> Session list \<times> entropy" where
  "suggestBalancedWeek e = seedFrom 0 (take 6 SESSION_TEMPLATES) e"

section \<open>Ordering (lines 301-306 and 250)\<close>

text \<open>
  \<open>a.localeCompare(b)\<close> is negative, zero or positive. On the strings a time input
  produces (\<open>HH:MM\<close>: two digits, a colon, two digits) the host's collation orders as the
  code units do, position by position, so the comparison is the lexicographic order of
  the character codes. The model is meant for such strings.
\<close>

definition localeCompare :: "string \<Rightarrow> string \<Rightarrow> int" where
  "localeCompare a b = (if a < b then - 1 else if a = b then 0 else 1)"

text \<open>\<open>Array.prototype.indexOf\<close>: the first position of the element, \<open>-1\<close> when absent.\<close>

fun indexOf :: "'a list \<Rightarrow> 'a \<Rightarrow> int" where
  "indexOf [] x = - 1"
| "indexOf (y # ys) x =
     (if y = x then 0 else (let r = indexOf ys x in if r < 0 then - 1 else r + 1))"

text \<open>
  \<open>Array.prototype.sort(compare)\<close> is a stable sort: elements that compare equal keep
  their order. With a consistent comparator the result of a stable sort is unique, so any
  stable algorithm stands for the host's; here it is insertion from the right.
\<close>

fun insert_by :: "('a \<Rightarrow> 'a \<Rightarrow> int) \<Rightarrow> 'a \<Rightarrow> 'a list \<Rightarrow> 'a list" where
  "insert_by compare x [] = [x]"
| "insert_by compare x (y # ys) =
     (if compare x y \<le> 0 then x # y # ys else y # insert_by compare x ys)"

definition array_sort :: "('a \<Rightarrow> 'a \<Rightarrow> int) \<Rightarrow> 'a list \<Rightarrow> 'a list" where
  "array_sort compare xs = foldr (insert_by compare) xs []"

text \<open>The comparator of \<open>handleSubmit\<close> (lines 301-306).\<close>

definition compareSessions :: "Session \<Rightarrow> Session \<Rightarrow> int" where
  "compareSessions a b =
     (if day a = day b then localeCompare (start a) (start b)
      else indexOf DAYS (day a) - indexOf DAYS (day b))"

text \<open>The comparator of \<open>byDay\<close> (line 250).\<close>

definition compareStart :: "Session \<Rightarrow> Session \<Rightarrow> int" where
  "compareStart a b = localeCompare (start a) (start b)"

text \<open>
  The order the specification names: day index ascending in the order of \<open>DAYS\<close>, ties
  broken by the lexicographic order of the start strings.
\<close>

definition session_key :: "Session \<Rightarrow> int \<times> string" where
  "session_key s = (indexOf DAYS (day s), start s)"

definition sorted_sessions :: "Session list \<Rightarrow> bool" where
  "sorted_sessions xs = sorted (map session_key xs)"

section \<open>Session store (lines 289-351)\<close>

text \<open>
  Each handler is the function it passes to \<open>setSessions\<close>: from the previous collection
  to the next. \<open>editingId\<close> is \<open>string | null\<close>.

  \<open>handleSubmit\<close>: the payload is \<open>{id: editingId ?? generateId(), ...draft}\<close>, so an
  identifier is drawn only when \<open>editingId\<close> is \<open>null\<close>. The test \<open>editingId ? ... : ...\<close>
  is on truthiness: \<open>null\<close> and the empty string take the append branch.
  \<open>{...session, ...payload}\<close> takes every property the payload has; the only property a
  payload can lack is \<open>notes\<close>, which then stays as the session has it.
\<close>

definition mergePayload :: "Session \<Rightarrow> Session \<Rightarrow> Session" where
  "mergePayload session payload =
     payload\<lparr>notes := (case notes payload of None \<Rightarrow> notes session | Some n \<Rightarrow> Some n)\<rparr>"

definition makePayload :: "string \<Rightarrow> Draft \<Rightarrow> Session" where
  "makePayload i draft =
     \<lparr>name = name draft, focus = focus draft, intensity = intensity draft, day = day draft,
      start = start draft, duration = duration draft, location = location draft,
      notes = notes draft, completed = completed draft, session_id = i\<rparr>"

definition handleSubmit ::
  "string option \<Rightarrow> Draft \<Rightarrow> entropy \<Rightarrow> Session list \<Rightarrow> Session list \<times> entropy" where
  "handleSubmit editingId draft e prev =
     (case (case editingId of None \<Rightarrow> generateId e | Some i \<Rightarrow> (i, e)) of
        (pid, e') \<Rightarrow>
          (let payload = makePayload pid draft;
               next = (case editingId of
                         None \<Rightarrow> prev @ [payload]
                       | Some i \<Rightarrow>
                           if i = [] then prev @ [payload]
                           else map (\<lambda>session.
                                  if session_id session = i then mergePayload session payload
                                  else session) prev)
           in (array_sort compareSessions next, e')))"

text \<open>\<open>const {id: _id, ...rest} = session\<close> of \<open>handleEdit\<close>: the session without its
  identifier.\<close>

definition restOf :: "Session \<Rightarrow> Draft" where
  "restOf session =
     \<lparr>name = name session, focus = focus session, intensity = intensity session,
      day = day session, start = start session, duration = duration session,
      location = location session, notes = notes session, completed = completed session\<rparr>"

definition handleDelete :: "string \<Rightarrow> Session list \<Rightarrow> Session list" where
  "handleDelete i prev = filter (\<lambda>session. session_id session \<noteq> i) prev"

definition toggleCompleted :: "string \<Rightarrow> Session list \<Rightarrow> Session list" where
  "toggleCompleted i prev =
     map (\<lambda>session.
        if session_id session = i then session\<lparr>completed := \<not> completed session\<rparr>
        else session) prev"

definition autoBalance :: "entropy \<Rightarrow> Session list \<times> entropy" where
  "autoBalance e = suggestBalancedWeek e"

section \<open>JavaScript numbers\<close>

text \<open>
  JavaScript numbers are IEEE 754 doubles: a sum, a quotient or a product is the double
  nearest to the exact result, a tie going to the even significand. \<open>fl\<close> is this
  rounding to 53 significant bits, on rationals, for magnitudes in the normal range (from
  \<open>2^-1022\<close> up to the largest double). An integer that no double holds enters a sum as
  the double nearest to it.
\<close>

definition pow2 :: "int \<Rightarrow> rat" where
  "pow2 k = (if 0 \<le> k then 2 ^ nat k else 1 / 2 ^ nat (- k))"

text \<open>\<open>ilog2 x\<close> is the exponent of \<open>x > 0\<close>: \<open>2^(ilog2 x) \<le> x < 2^(ilog2 x + 1)\<close>.\<close>

definition ilog2 :: "rat \<Rightarrow> int" where
  "ilog2 x =
     (case quotient_of x of
        (p, q) \<Rightarrow> (let d = bitlen p - bitlen q in if pow2 d \<le> x then d else d - 1))"

definition round_half_even :: "rat \<Rightarrow> int" where
  "round_half_even y =
     (let n = \<lfloor>y\<rfloor>; r = y - of_int n
      in if r < 1 / 2 then n else if 1 / 2 < r then n + 1 else if even n then n else n + 1)"

definition fl :: "rat \<Rightarrow> rat" where
  "fl x =
     (if x = 0 then 0
      else (let u = pow2 (ilog2 \<bar>x\<bar> - 52) in of_int (round_half_even (x / u)) * u))"

section \<open>Aggregation (lines 245-272)\<close>

definition byDay :: "Session list \<Rightarrow> (DayKey \<times> Session list) list" where
  "byDay sessions =
     map (\<lambda>d. (d, array_sort compareStart (filter (\<lambda>session. day session = d) sessions))) DAYS"

text \<open>\<open>reduce((sum, session) => sum + session.duration, 0)\<close> is a left fold, each
  \<open>+\<close> an addition of doubles.\<close>

definition sumDuration :: "Session list \<Rightarrow> rat" where
  "sumDuration xs = foldl (\<lambda>sum session. fl (sum + of_int (duration session))) 0 xs"

record FocusEntry =
  fe_focus :: TrainingFocus
  fe_total :: rat
  fe_completed :: rat

definition focusVolume :: "Session list \<Rightarrow> FocusEntry list" where
  "focusVolume sessions =
     map (\<lambda>f.
        \<lparr>fe_focus = f,
         fe_total = sumDuration (filter (\<lambda>session. focus session = f) sessions),
         fe_completed =
           sumDuration (filter (\<lambda>session. focus session = f \<and> completed session) sessions)\<rparr>)
       TRAINING_FOCI"

definition weeklyMinutes :: "Session list \<Rightarrow> rat" where
  "weeklyMinutes sessions = sumDuration sessions"

section \<open>Stored representation\<close>

text \<open>
  What \<open>JSON.parse\<close> returns. An object is its properties in order; \<open>JSON.parse\<close> never
  returns an object with a repeated key.
\<close>

datatype json =
    JNull
  | JBool bool
  | JNum rat
  | JStr string
  | JArr "json list"
  | JObj "(string \<times> json) list"

fun focusName :: "TrainingFocus \<Rightarrow> string" where
  "focusName Strength = ''Strength''"
| "focusName Hypertrophy = ''Hypertrophy''"
| "focusName Conditioning = ''Conditioning''"
| "focusName Mobility = ''Mobility''"
| "focusName Skill = ''Skill''"
| "focusName Recovery = ''Recovery''"

fun intensityName :: "Intensity \<Rightarrow> string" where
  "intensityName Low = ''Low''"
| "intensityName Medium = ''Medium''"
| "intensityName High = ''High''"

fun dayName :: "DayKey \<Rightarrow> string" where
  "dayName Monday = ''Monday''"
| "dayName Tuesday = ''Tuesday''"
| "dayName Wednesday = ''Wednesday''"
| "dayName Thursday = ''Thursday''"
| "dayName Friday = ''Friday''"
| "dayName Saturday = ''Saturday''"
| "dayName Sunday = ''Sunday''"

definition focusOf :: "string \<Rightarrow> TrainingFocus option" where
  "focusOf s = map_of (map (\<lambda>f. (focusName f, f)) TRAINING_FOCI) s"

definition intensityOf :: "string \<Rightarrow> Intensity option" where
  "intensityOf s = map_of (map (\<lambda>i. (intensityName i, i)) INTENSITIES) s"

definition dayOf :: "string \<Rightarrow> DayKey option" where
  "dayOf s = map_of (map (\<lambda>d. (dayName d, d)) DAYS) s"

text \<open>
  A session as the object the page holds and \<open>JSON.stringify\<close> writes: the ten properties
  of the type \<open>Session\<close>, \<open>notes\<close> left out when absent. The order of the properties is
  that of the type declaration; nothing below depends on it, \<open>fromJSON\<close> reads an object
  in any order.
\<close>

definition toJSON :: "Session \<Rightarrow> json" where
  "toJSON s = JObj
     ([(''id'', JStr (session_id s)), (''name'', JStr (name s)),
       (''focus'', JStr (focusName (focus s))),
       (''intensity'', JStr (intensityName (intensity s))),
       (''day'', JStr (dayName (day s))), (''start'', JStr (start s)),
       (''duration'', JNum (of_int (duration s))), (''location'', JStr (location s))]
      @ (case notes s of None \<Rightarrow> [] | Some n \<Rightarrow> [(''notes'', JStr n)])
      @ [(''completed'', JBool (completed s))])"

definition getStr :: "(string \<times> json) list \<Rightarrow> string \<Rightarrow> string option" where
  "getStr kvs k = (case map_of kvs k of Some (JStr s) \<Rightarrow> Some s | _ \<Rightarrow> None)"

definition getBool :: "(string \<times> json) list \<Rightarrow> string \<Rightarrow> bool option" where
  "getBool kvs k = (case map_of kvs k of Some (JBool b) \<Rightarrow> Some b | _ \<Rightarrow> None)"

definition getInt :: "(string \<times> json) list \<Rightarrow> string \<Rightarrow> int option" where
  "getInt kvs k =
     (case map_of kvs k of
        Some (JNum r) \<Rightarrow> if of_int \<lfloor>r\<rfloor> = r then Some \<lfloor>r\<rfloor> else None
      | _ \<Rightarrow> None)"

definition getOptStr :: "(string \<times> json) list \<Rightarrow> string \<Rightarrow> string option option" where
  "getOptStr kvs k =
     (case map_of kvs k of None \<Rightarrow> Some None | Some (JStr s) \<Rightarrow> Some (Some s) | _ \<Rightarrow> None)"

text \<open>
  The reading of an object as a value of the type \<open>Session\<close>, which is what the cast
  \<open>as Session[]\<close> of \<open>loadSessions\<close> takes for granted: \<open>None\<close> when the object is not of
  that type.
\<close>

definition fromJSON :: "json \<Rightarrow> Session option" where
  "fromJSON v =
     (case v of
        JObj kvs \<Rightarrow>
          do {
            i \<leftarrow> getStr kvs ''id'';
            n \<leftarrow> getStr kvs ''name'';
            f \<leftarrow> Option.bind (getStr kvs ''focus'') focusOf;
            t \<leftarrow> Option.bind (getStr kvs ''intensity'') intensityOf;
            d \<leftarrow> Option.bind (getStr kvs ''day'') dayOf;
            st \<leftarrow> getStr kvs ''start'';
            du \<leftarrow> getInt kvs ''duration'';
            l \<leftarrow> getStr kvs ''location'';
            no \<leftarrow> getOptStr kvs ''notes'';
            c \<leftarrow> getBool kvs ''completed'';
            Some \<lparr>name = n, focus = f, intensity = t, day = d, start = st, duration = du,
                  location = l, notes = no, completed = c, session_id = i\<rparr>
          }
      | _ \<Rightarrow> None)"

definition asSessions :: "json list \<Rightarrow> Session list option" where
  "asSessions vs = those (map fromJSON vs)"

section \<open>Persistence (lines 158-178, 200-205 and 234-243)\<close>

text \<open>
  \<open>localStorage\<close> is the value under \<open>STORAGE_KEY\<close>: \<open>None\<close> when \<open>getItem\<close> returns
  \<open>null\<close>. \<open>window\<close> is \<open>None\<close> where \<open>typeof window === "undefined"\<close>.
  \<open>JSON.parse\<close> and \<open>JSON.stringify\<close> belong to the host: they are parameters,
  \<open>JSON_parse\<close> returning \<open>None\<close> where \<open>JSON.parse\<close> throws.
\<close>

type_synonym localStorage = "string option"

type_synonym window = "localStorage option"

function showNat :: "nat \<Rightarrow> string" where
  "showNat n =
     (if n < 10 then [''0123456789'' ! n]
      else showNat (n div 10) @ [''0123456789'' ! (n mod 10)])"
  by pat_completeness auto
termination
  by (relation "measure (\<lambda>n. n)") auto

declare showNat.simps [simp del]

text \<open>
  The own enumerable properties that \<open>{...session}\<close> copies: those of an object; the
  indexed elements of an array; the indexed characters of a string; none of a number, a
  boolean or \<open>null\<close>.
\<close>

fun spread :: "json \<Rightarrow> (string \<times> json) list" where
  "spread (JObj kvs) = kvs"
| "spread (JArr xs) = zip (map showNat [0..<length xs]) xs"
| "spread (JStr s) = zip (map showNat [0..<length s]) (map (\<lambda>c. JStr [c]) s)"
| "spread _ = []"

text \<open>
  \<open>session.id\<close> and \<open>session.completed\<close>: \<open>Inl ()\<close> is the TypeError of a property read
  on \<open>null\<close>, \<open>Inr None\<close> is \<open>undefined\<close>. Arrays, strings, numbers and booleans have no
  property of either name.
\<close>

fun getProp :: "json \<Rightarrow> string \<Rightarrow> unit + json option" where
  "getProp JNull k = Inl ()"
| "getProp (JObj kvs) k = Inr (map_of kvs k)"
| "getProp _ k = Inr None"

text \<open>\<open>Boolean(x)\<close> on \<open>undefined\<close> or a parsed value.\<close>

fun Boolean :: "json option \<Rightarrow> bool" where
  "Boolean None = False"
| "Boolean (Some JNull) = False"
| "Boolean (Some (JBool b)) = b"
| "Boolean (Some (JNum r)) = (r \<noteq> 0)"
| "Boolean (Some (JStr s)) = (s \<noteq> [])"
| "Boolean (Some (JArr xs)) = True"
| "Boolean (Some (JObj kvs)) = True"

text \<open>
  The callback of \<open>parsed.map\<close> (lines 169-173):
  \<open>{...session, id: session.id ?? generateId(), completed: Boolean(session.completed)}\<close>.
  \<open>??\<close> draws an identifier when \<open>session.id\<close> is \<open>undefined\<close> or \<open>null\<close>. Writing a
  property that exists keeps its place, a new one goes last: \<open>AList.update\<close>.
  \<open>None\<close> is the TypeError.
\<close>

definition normalise :: "json \<Rightarrow> entropy \<Rightarrow> (json \<times> entropy) option" where
  "normalise session e =
     (case getProp session ''id'' of
        Inl _ \<Rightarrow> None
      | Inr idv \<Rightarrow>
          (case (case idv of
                   None \<Rightarrow> (case generateId e of (g, e1) \<Rightarrow> (JStr g, e1))
                 | Some JNull \<Rightarrow> (case generateId e of (g, e1) \<Rightarrow> (JStr g, e1))
                 | Some v \<Rightarrow> (v, e)) of
             (i, e') \<Rightarrow>
               (case getProp session ''completed'' of
                  Inl _ \<Rightarrow> None
                | Inr cv \<Rightarrow>
                    Some (JObj (AList.update ''completed'' (JBool (Boolean cv))
                                 (AList.update ''id'' i (spread session))), e'))))"

text \<open>\<open>parsed.map(...)\<close>, left to right, given up at the first TypeError; the identifiers
  drawn before it are spent.\<close>

fun normaliseAll :: "json list \<Rightarrow> entropy \<Rightarrow> json list option \<times> entropy" where
  "normaliseAll [] e = (Some [], e)"
| "normaliseAll (x # xs) e =
     (case normalise x e of
        None \<Rightarrow> (None, e)
      | Some (y, e1) \<Rightarrow>
          (case normaliseAll xs e1 of
             (None, e2) \<Rightarrow> (None, e2)
           | (Some ys, e2) \<Rightarrow> (Some (y # ys), e2)))"

text \<open>
  What the callback leaves of an element \<open>v\<close> in its result \<open>y\<close>: \<open>completed\<close> is the
  boolean of the element's; \<open>id\<close> is the element's unless that is \<open>undefined\<close> or
  \<open>null\<close>, and then a string; every other property is as in the element, in its order.
\<close>

definition propOf :: "json \<Rightarrow> string \<Rightarrow> json option" where
  "propOf v k = (case getProp v k of Inl _ \<Rightarrow> None | Inr p \<Rightarrow> p)"

definition nullish :: "json option \<Rightarrow> bool" where
  "nullish p = (case p of None \<Rightarrow> True | Some JNull \<Rightarrow> True | Some _ \<Rightarrow> False)"

definition otherProps :: "(string \<times> json) list \<Rightarrow> (string \<times> json) list" where
  "otherProps kvs = filter (\<lambda>kv. fst kv \<noteq> ''id'' \<and> fst kv \<noteq> ''completed'') kvs"

definition backfilled :: "json \<Rightarrow> json \<Rightarrow> bool" where
  "backfilled v y =
     (case y of
        JObj kvs \<Rightarrow>
          map_of kvs ''completed'' = Some (JBool (Boolean (propOf v ''completed'')))
          \<and> (if nullish (propOf v ''id'')
               then (case map_of kvs ''id'' of Some (JStr g) \<Rightarrow> True | _ \<Rightarrow> False)
               else map_of kvs ''id'' = propOf v ''id'')
          \<and> otherProps kvs = otherProps (spread v)
      | _ \<Rightarrow> False)"

definition seededWeek :: "entropy \<Rightarrow> json list \<times> entropy" where
  "seededWeek e = (case suggestBalancedWeek e of (ss, e') \<Rightarrow> (map toJSON ss, e'))"

text \<open>
  \<open>loadSessions\<close>. The \<open>catch\<close> takes every exception of the \<open>try\<close> block: the SyntaxError
  of \<open>JSON.parse\<close>, the TypeError of \<open>parsed.map\<close> when the parsed value is not an array
  (no parsed value has a callable \<open>map\<close>), and the TypeError of the callback on a
  \<open>null\<close> element. The result is the list of objects the function returns.
\<close>

definition loadSessions ::
  "(string \<Rightarrow> json option) \<Rightarrow> window \<Rightarrow> entropy \<Rightarrow> json list \<times> entropy" where
  "loadSessions JSON_parse w e =
     (case w of
        None \<Rightarrow> ([], e)
      | Some None \<Rightarrow> seededWeek e
      | Some (Some raw) \<Rightarrow>
          if raw = [] then seededWeek e
          else
            (case JSON_parse raw of
               None \<Rightarrow> seededWeek e
             | Some (JArr xs) \<Rightarrow>
                 (case normaliseAll xs e of
                    (Some ys, e') \<Rightarrow> (ys, e')
                  | (None, e') \<Rightarrow> seededWeek e')
             | Some _ \<Rightarrow> seededWeek e))"

definition saveSessions :: "(json \<Rightarrow> string) \<Rightarrow> window \<Rightarrow> Session list \<Rightarrow> window" where
  "saveSessions JSON_stringify w sessions =
     (case w of
        None \<Rightarrow> None
      | Some ls \<Rightarrow> Some (Some (JSON_stringify (JArr (map toJSON sessions)))))"

text \<open>The persistence effect of \<open>Page\<close> (lines 234-243), run with the new collection
  after every change of \<open>sessions\<close>.\<close>

definition persistEffect :: "(json \<Rightarrow> string) \<Rightarrow> window \<Rightarrow> Session list \<Rightarrow> window" where
  "persistEffect JSON_stringify w sessions =
     (case w of
        None \<Rightarrow> None
      | Some ls \<Rightarrow>
          if length sessions = 0 then Some None
          else saveSessions JSON_stringify w sessions)"

section \<open>The page as a transition system\<close>

text \<open>
  One action per way the page sets \<open>sessions\<close>. \<open>Load\<close> carries what \<open>loadSessions\<close>
  finds in the browser; its result enters the state through the cast to \<open>Session[]\<close>, and
  a step is \<open>None\<close> when the loaded objects are not of that type.
\<close>

datatype action =
    Submit "string option" Draft
  | Delete string
  | Toggle string
  | AutoBalance
  | Load window

fun step ::
  "(string \<Rightarrow> json option) \<Rightarrow> action \<Rightarrow> Session list \<times> entropy \<Rightarrow> (Session list \<times> entropy) option"
  where
  "step P (Submit editingId draft) (c, e) = Some (handleSubmit editingId draft e c)"
| "step P (Delete i) (c, e) = Some (handleDelete i c, e)"
| "step P (Toggle i) (c, e) = Some (toggleCompleted i c, e)"
| "step P AutoBalance (c, e) = Some (autoBalance e)"
| "step P (Load w) (c, e) =
     (case loadSessions P w e of
        (vs, e') \<Rightarrow> (case asSessions vs of None \<Rightarrow> None | Some ss \<Rightarrow> Some (ss, e')))"

fun run ::
  "(string \<Rightarrow> json option) \<Rightarrow> action list \<Rightarrow> Session list \<times> entropy \<Rightarrow> (Session list \<times> entropy) option"
  where
  "run P [] st = Some st"
| "run P (a # as) st = (case step P a st of None \<Rightarrow> None | Some st' \<Rightarrow> run P as st')"

text \<open>What a \<open>Load\<close> may find for the order to survive it: nothing, text that does not
  parse to an array, or an array of sessions already in order.\<close>

definition storedSorted :: "(string \<Rightarrow> json option) \<Rightarrow> window \<Rightarrow> bool" where
  "storedSorted P w =
     (case w of
        Some (Some raw) \<Rightarrow>
          raw = [] \<or>
          (case P raw of
             Some (JArr xs) \<Rightarrow>
               (case asSessions xs of None \<Rightarrow> False | Some ss \<Rightarrow> sorted_sessions ss)
           | _ \<Rightarrow> True)
      | _ \<Rightarrow> True)"

fun loadsOf :: "action list \<Rightarrow> window list" where
  "loadsOf [] = []"
| "loadsOf (Load w # as) = w # loadsOf as"
| "loadsOf (_ # as) = loadsOf as"

section \<open>Completion rate (lines 378-384)\<close>

text \<open>\<open>Math.round\<close>: the nearest integer, a tie going up.\<close>

definition Math_round :: "rat \<Rightarrow> int" where
  "Math_round x = \<lfloor>x + 1 / 2\<rfloor>"

text \<open>
  The expression of the Completion Rate card:
  \<open>sessions.length ? Math.round((sessions.filter(s => s.completed).length /
  sessions.length) * 100) : 0\<close>.
\<close>

definition completionRate :: "Session list \<Rightarrow> int" where
  "completionRate sessions =
     (if length sessions \<noteq> 0
      then Math_round
             (fl (fl (of_nat (length (filter completed sessions)) / of_nat (length sessions))
                  * 100))
      else 0)"

section \<open>End time (lines 219-221)\<close>

text \<open>
  \<open>dayjs(`2020-01-01T${start}`).add(duration, "minute").format("HH:mm")\<close>, as dayjs
  computes it:
  \<^item> the string \<open>2020-01-01THH:MM\<close> is read as local time, \<open>new Date(2020, 0, 1, HH, MM)\<close>;
  \<^item> \<open>add(n, "minute")\<close> makes a new instance from the time value plus \<open>n * 60000\<close>
    milliseconds;
  \<^item> \<open>format\<close> returns the string \<open>Invalid Date\<close> when the time value is outside the range
    of \<open>Date\<close> (more than \<open>8.64e15\<close> ms from the epoch), and otherwise the local hours and
    minutes, padded to two digits.
  The host's time zone is a fixed offset from UTC, in minutes east: a zone that changes
  its offset between the two instants is outside the model. So are start strings that are
  not \<open>HH:MM\<close> (24-hour, zero-padded), which dayjs reads along other paths: \<open>None\<close>.
\<close>

definition digitOf :: "char \<Rightarrow> nat option" where
  "digitOf c =
     (let k = (of_char c :: nat) in if 48 \<le> k \<and> k \<le> 57 then Some (k - 48) else None)"

definition parseHHMM :: "string \<Rightarrow> (nat \<times> nat) option" where
  "parseHHMM s =
     (if length s = 5 \<and> s ! 2 = CHR '':'' then
        (case (digitOf (s ! 0), digitOf (s ! 1), digitOf (s ! 3), digitOf (s ! 4)) of
           (Some h1, Some h0, Some m1, Some m0) \<Rightarrow>
             (let h = 10 * h1 + h0; m = 10 * m1 + m0
              in if h < 24 \<and> m < 60 then Some (h, m) else None)
         | _ \<Rightarrow> None)
      else None)"

definition pad2 :: "nat \<Rightarrow> string" where
  "pad2 n = (if n < 10 then CHR ''0'' # showNat n else showNat n)"

definition jan1_2020 :: int where
  "jan1_2020 = 1577836800000"

definition maxTime :: int where
  "maxTime = 8640000000000000"

definition getEndTime :: "int \<Rightarrow> string \<Rightarrow> int \<Rightarrow> string option" where
  "getEndTime offset start_str dur =
     (case parseHHMM start_str of
        None \<Rightarrow> None
      | Some (h, m) \<Rightarrow>
          (let t0 = jan1_2020 + (int h * 60 + int m - offset) * 60000;
               t1 = t0 + dur * 60000
           in if maxTime < \<bar>t1\<bar> then Some ''Invalid Date''
              else
                (let local = t1 + offset * 60000;
                     hh = nat ((local div 3600000) mod 24);
                     mm = nat ((local div 60000) mod 60)
                 in Some (pad2 hh @ '':'' @ pad2 mm))))"

text \<open>The time of day the specification names: \<open>duration\<close> minutes after \<open>h:m\<close>, modulo
  the 1440 minutes of a day, written \<open>HH:MM\<close>.\<close>

definition wallClock :: "nat \<Rightarrow> nat \<Rightarrow> int \<Rightarrow> string" where
  "wallClock h m dur =
     (let t = nat ((int h * 60 + int m + dur) mod 1440) in pad2 (t div 60) @ '':'' @ pad2 (t mod 60))"

section \<open>Sample data\<close>

text \<open>A random source whose draws are pairwise different.\<close>

definition sampleIds :: entropy where
  "sampleIds n = ''id-'' @ showNat n"

definition mondayLift :: Session where
  "mondayLift =
     \<lparr>name = ''Lift'', focus = Strength, intensity = High, day = Monday, start = ''06:30'',
      duration = 60, location = ''Main Floor'', notes = Some [], completed = True,
      session_id = ''a''\<rparr>"

definition tuesdayRun :: Session where
  "tuesdayRun =
     \<lparr>name = ''Run'', focus = Conditioning, intensity = Medium, day = Tuesday,
      start = ''07:00'', duration = 90, location = ''Track'', notes = Some [],
      completed = False, session_id = ''b''\<rparr>"

definition tuesdayStretch :: Session where
  "tuesdayStretch =
     \<lparr>name = ''Stretch'', focus = Mobility, intensity = Low, day = Tuesday,
      start = ''18:00'', duration = 30, location = ''Studio B'', notes = None,
      completed = False, session_id = ''c''\<rparr>"

text \<open>Two stored texts: the array of \<open>tuesdayRun\<close> and \<open>mondayLift\<close> in this order, and
  the array of \<open>mondayLift\<close> and \<open>tuesdayRun\<close>.\<close>

definition unsortedText :: string where
  \<open>unsortedText =
     ''[{"id":"b","name":"Run","focus":"Conditioning","intensity":"Medium","day":"Tuesday","start":"07:00","duration":90,"location":"Track","notes":"","completed":false},{"id":"a","name":"Lift","focus":"Strength","intensity":"High","day":"Monday","start":"06:30","duration":60,"location":"Main Floor","notes":"","completed":true}]''\<close>

definition sortedText :: string where
  \<open>sortedText =
     ''[{"id":"a","name":"Lift","focus":"Strength","intensity":"High","day":"Monday","start":"06:30","duration":60,"location":"Main Floor","notes":"","completed":true},{"id":"b","name":"Run","focus":"Conditioning","intensity":"Medium","day":"Tuesday","start":"07:00","duration":90,"location":"Track","notes":"","completed":false}]''\<close>

text \<open>
  \<open>JSON.parse\<close> and \<open>JSON.stringify\<close> on the texts and values of the examples below.
  The tables say nothing of other arguments; the examples apply them to no other.
\<close>

definition parseTable :: "string \<Rightarrow> json option" where
  \<open>parseTable =
     map_of
       [(unsortedText, JArr [toJSON tuesdayRun, toJSON mondayLift]),
        (sortedText, JArr [toJSON mondayLift, toJSON tuesdayRun]),
        (''[null]'', JArr [JNull]),
        (''[]'', JArr []),
        (''{}'', JObj []),
        (''[{"day":"Monday","completed":1}]'',
           JArr [JObj [(''day'', JStr ''Monday''), (''completed'', JNum 1)]])]\<close>

definition stringifyTable :: "json \<Rightarrow> string" where
  "stringifyTable v =
     (if v = JArr [toJSON mondayLift, toJSON tuesdayRun] then sortedText
      else if v = JArr [toJSON tuesdayRun, toJSON mondayLift] then unsortedText
      else ''[]'')"

text \<open>Three sessions of three foci, lasting 1, \<open>2^53\<close> and 1 minutes.\<close>

definition longSessions :: "Session list" where
  "longSessions =
     [mondayLift\<lparr>duration := 1\<rparr>,
      tuesdayRun\<lparr>duration := 9007199254740992\<rparr>,
      tuesdayStretch\<lparr>duration := 1\<rparr>]"

text \<open>Forty sessions, the first twenty-three of them completed.\<close>

definition fortySessions :: "Session list" where
  "fortySessions =
     map (\<lambda>k. \<lparr>name = ''Lift'', focus = Strength, intensity = High, day = Monday,
               start = ''06:30'', duration = 60, location = ''Main Floor'', notes = Some [],
               completed = (k < 23), session_id = sampleIds k\<rparr>) [0..<40]"

section \<open>The sort of the page is the stable sort by day and start\<close>

lemma insert_by_insort_key:
  assumes "\<And>a b. (compare a b \<le> 0) = (key a \<le> key b)"
  shows "insert_by compare x xs = insort_key key x xs"
  by (induction xs) (simp_all add: assms)

lemma array_sort_sort_key:
  assumes "\<And>a b. (compare a b \<le> 0) = (key a \<le> key b)"
  shows "array_sort compare xs = sort_key key xs"
  unfolding array_sort_def
  by (induction xs) (simp_all add: insert_by_insort_key [OF assms])

lemma localeCompare_le: "(localeCompare a b \<le> 0) = (a \<le> b)"
  by (auto simp: localeCompare_def)

lemma indexOf_DAYS:
  "indexOf DAYS Monday = 0" "indexOf DAYS Tuesday = 1" "indexOf DAYS Wednesday = 2"
  "indexOf DAYS Thursday = 3" "indexOf DAYS Friday = 4" "indexOf DAYS Saturday = 5"
  "indexOf DAYS Sunday = 6"
  by (simp_all add: DAYS_def)

lemma indexOf_DAYS_inj: "(indexOf DAYS a = indexOf DAYS b) = (a = b)"
  by (cases a; cases b; simp add: indexOf_DAYS)

lemma compareSessions_le: "(compareSessions a b \<le> 0) = (session_key a \<le> session_key b)"
  by (auto simp: compareSessions_def session_key_def localeCompare_le indexOf_DAYS_inj less_eq_prod_def)

lemma compareStart_le: "(compareStart a b \<le> 0) = (start a \<le> start b)"
  by (simp add: compareStart_def localeCompare_le)

lemma sort_compareSessions: "array_sort compareSessions xs = sort_key session_key xs"
  by (rule array_sort_sort_key) (rule compareSessions_le)

lemma sort_compareStart: "array_sort compareStart xs = sort_key start xs"
  by (rule array_sort_sort_key) (rule compareStart_le)

section \<open>Order of the collection\<close>

lemma sorted_handleSubmit: "sorted_sessions (fst (handleSubmit editingId draft e prev))"
  by (simp add: handleSubmit_def sort_compareSessions sorted_sessions_def Let_def
      split: option.splits prod.splits)

lemma sorted_handleDelete: "sorted_sessions prev \<Longrightarrow> sorted_sessions (handleDelete i prev)"
  unfolding sorted_sessions_def handleDelete_def by (rule sorted_filter)

lemma key_toggleCompleted: "map session_key (toggleCompleted i prev) = map session_key prev"
  by (simp add: toggleCompleted_def session_key_def)

lemma sorted_toggleCompleted: "sorted_sessions prev \<Longrightarrow> sorted_sessions (toggleCompleted i prev)"
  by (simp add: sorted_sessions_def key_toggleCompleted)

lemma keys_suggestBalancedWeek:
  "map session_key (fst (suggestBalancedWeek e)) =
     [(0, ''06:30''), (1, ''07:00''), (2, ''18:00''), (3, ''09:00''), (4, ''08:30''), (5, ''10:00'')]"
  by (simp add: suggestBalancedWeek_def SESSION_TEMPLATES_def generateId_def seedSession_def
      session_key_def daysSequence_def baseTimes_def indexOf_DAYS)

lemma sorted_suggestBalancedWeek: "sorted_sessions (fst (suggestBalancedWeek e))"
  by (simp add: sorted_sessions_def keys_suggestBalancedWeek)

lemma focusOf_focusName: "focusOf (focusName f) = Some f"
  by (cases f) (simp_all add: focusOf_def TRAINING_FOCI_def)

lemma intensityOf_intensityName: "intensityOf (intensityName i) = Some i"
  by (cases i) (simp_all add: intensityOf_def INTENSITIES_def)

lemma dayOf_dayName: "dayOf (dayName d) = Some d"
  by (cases d) (simp_all add: dayOf_def DAYS_def)

lemma fromJSON_toJSON: "fromJSON (toJSON s) = Some s"
  by (cases "notes s")
     (simp_all add: fromJSON_def toJSON_def getStr_def getBool_def getInt_def getOptStr_def
        focusOf_focusName intensityOf_intensityName dayOf_dayName)

lemma asSessions_Nil: "asSessions [] = Some []"
  by (simp add: asSessions_def)

lemma asSessions_Cons:
  "asSessions (v # vs) =
     (case fromJSON v of None \<Rightarrow> None
      | Some s \<Rightarrow> (case asSessions vs of None \<Rightarrow> None | Some ss \<Rightarrow> Some (s # ss)))"
  by (simp add: asSessions_def split: option.splits)

lemma asSessions_toJSON: "asSessions (map toJSON ss) = Some ss"
  by (induction ss) (simp_all add: asSessions_Nil asSessions_Cons fromJSON_toJSON)

lemma normalise_wellformed:
  assumes "fromJSON v = Some s"
  shows "normalise v e = Some (v, e)"
proof -
  from assms obtain kvs where v: "v = JObj kvs"
    by (cases v) (simp_all add: fromJSON_def)
  from assms v obtain i c where "getStr kvs ''id'' = Some i" "getBool kvs ''completed'' = Some c"
    by (auto simp: fromJSON_def bind_eq_Some_conv)
  then have i: "map_of kvs ''id'' = Some (JStr i)" and c: "map_of kvs ''completed'' = Some (JBool c)"
    by (auto simp: getStr_def getBool_def split: option.splits json.splits)
  have "AList.update ''id'' (JStr i) kvs = kvs"
    using i by (rule update_triv)
  moreover have "AList.update ''completed'' (JBool c) kvs = kvs"
    using c by (rule update_triv)
  ultimately show ?thesis
    using i c by (simp add: normalise_def v)
qed

lemma normaliseAll_wellformed:
  "asSessions vs = Some ss \<Longrightarrow> normaliseAll vs e = (Some vs, e)"
proof (induction vs arbitrary: ss)
  case Nil
  show ?case by simp
next
  case (Cons v vs)
  from Cons.prems obtain s ss' where s: "fromJSON v = Some s" and ss': "asSessions vs = Some ss'"
    by (auto simp: asSessions_Cons split: option.splits)
  from Cons.IH [OF ss'] normalise_wellformed [OF s] show ?case by simp
qed

lemma seededWeek_asSessions:
  "asSessions (fst (seededWeek e)) = Some (fst (suggestBalancedWeek e))"
  by (simp add: seededWeek_def asSessions_toJSON split: prod.splits)

lemma load_sorted:
  assumes "storedSorted P w"
  shows "\<exists>ss. asSessions (fst (loadSessions P w e)) = Some ss \<and> sorted_sessions ss"
proof -
  have seeded: "\<exists>ss. asSessions (fst (seededWeek e')) = Some ss \<and> sorted_sessions ss" for e'
    by (simp add: seededWeek_asSessions sorted_suggestBalancedWeek)
  show ?thesis
  proof (cases w)
    case None
    then show ?thesis by (simp add: loadSessions_def asSessions_Nil sorted_sessions_def)
  next
    case (Some ls)
    show ?thesis
    proof (cases ls)
      case None
      with Some seeded show ?thesis by (simp add: loadSessions_def)
    next
      case (Some raw)
      note raw = this
      show ?thesis
      proof (cases "raw = []")
        case True
        with raw \<open>w = Some ls\<close> seeded show ?thesis by (simp add: loadSessions_def)
      next
        case False
        show ?thesis
        proof (cases "P raw")
          case None
          with False raw \<open>w = Some ls\<close> seeded show ?thesis by (simp add: loadSessions_def)
        next
          case (Some v)
          show ?thesis
          proof (cases v)
            case (JArr xs)
            with assms False raw \<open>w = Some ls\<close> Some
            obtain ss where ss: "asSessions xs = Some ss" "sorted_sessions ss"
              by (auto simp: storedSorted_def split: option.splits)
            from normaliseAll_wellformed [OF ss(1), of e] ss JArr Some False raw \<open>w = Some ls\<close>
            show ?thesis by (simp add: loadSessions_def)
          qed (use False raw \<open>w = Some ls\<close> Some seeded in \<open>simp_all add: loadSessions_def\<close>)
        qed
      qed
    qed
  qed
qed

lemma step_sorted:
  assumes "sorted_sessions c" and "\<And>w. a = Load w \<Longrightarrow> storedSorted P w"
  shows "\<exists>c' e'. step P a (c, e) = Some (c', e') \<and> sorted_sessions c'"
proof (cases a)
  case (Submit i d)
  then show ?thesis
    using sorted_handleSubmit [of i d e c] by (cases "handleSubmit i d e c") simp
next
  case (Delete i)
  with assms show ?thesis by (simp add: sorted_handleDelete)
next
  case (Toggle i)
  with assms show ?thesis by (simp add: sorted_toggleCompleted)
next
  case AutoBalance
  then show ?thesis
    using sorted_suggestBalancedWeek [of e] by (cases "suggestBalancedWeek e") (simp add: autoBalance_def)
next
  case (Load w)
  with assms have "storedSorted P w" by simp
  from load_sorted [OF this, of e] Load show ?thesis
    by (cases "loadSessions P w e") auto
qed

lemma run_sorted:
  "sorted_sessions c \<Longrightarrow> \<forall>w \<in> set (loadsOf acts). storedSorted P w \<Longrightarrow>
   \<exists>c' e'. run P acts (c, e) = Some (c', e') \<and> sorted_sessions c'"
proof (induction acts arbitrary: c e)
  case Nil
  then show ?case by simp
next
  case (Cons a acts)
  have "\<And>w. a = Load w \<Longrightarrow> storedSorted P w"
    using Cons.prems(2) by auto
  from step_sorted [OF Cons.prems(1) this, where e = e]
  obtain c1 e1 where s: "step P a (c, e) = Some (c1, e1)" "sorted_sessions c1" by blast
  have "\<forall>w \<in> set (loadsOf acts). storedSorted P w"
    using Cons.prems(2) by (cases a) auto
  from Cons.IH [OF s(2) this, where e = e1] s(1) show ?case by simp
qed

text \<open>
  Claim C1, as amended. From a collection in order (day index ascending in the order of
  \<open>DAYS\<close>, ties by the lexicographic order of the start strings; the initial empty
  collection is), every sequence of store operations (create and update by
  \<open>handleSubmit\<close>, \<open>handleDelete\<close>, \<open>toggleCompleted\<close>, \<open>autoBalance\<close>, and loads by
  \<open>loadSessions\<close>) leaves a collection in order, provided each load finds no stored
  value, or a text that does not parse to an array, or an array of sessions that is
  itself in order. \<open>loadSessions\<close> does not sort: it returns a stored array in the
  stored order.
\<close>

theorem store_order_invariant:
  assumes "sorted_sessions c" and "\<forall>w \<in> set (loadsOf acts). storedSorted P w"
  shows "\<exists>c' e'. run P acts (c, e) = Some (c', e') \<and> sorted_sessions c'"
  using assms by (rule run_sorted)

theorem store_order_invariant_witness:
  "sorted_sessions []
   \<and> storedSorted parseTable (Some (Some sortedText))
   \<and> storedSorted parseTable (Some None)
   \<and> (\<exists>c' e'. run parseTable [Load (Some (Some sortedText)), Submit None DEFAULT_SESSION,
          Toggle ''a'', Delete ''b'', Load (Some None), AutoBalance] ([], sampleIds) = Some (c', e')
        \<and> sorted_sessions c')"
proof -
  have h1: "sorted_sessions []" by (simp add: sorted_sessions_def)
  have srt: "sorted_sessions [mondayLift, tuesdayRun]"
    by (simp add: sorted_sessions_def session_key_def mondayLift_def tuesdayRun_def indexOf_DAYS)
  have s1: "storedSorted parseTable (Some (Some sortedText))"
    using asSessions_toJSON [of "[mondayLift, tuesdayRun]"] srt
    by (simp add: storedSorted_def parseTable_def sortedText_def unsortedText_def)
  have s2: "storedSorted parseTable (Some None)"
    by (simp add: storedSorted_def)
  have h2: "\<forall>w \<in> set (loadsOf [Load (Some (Some sortedText)), Submit None DEFAULT_SESSION,
          Toggle ''a'', Delete ''b'', Load (Some None), AutoBalance]). storedSorted parseTable w"
    using s1 s2 by simp
  from h1 s1 s2 store_order_invariant [OF h1 h2, of sampleIds] show ?thesis by blast
qed

text \<open>
  Claim C1 as stated fails at a load: with the array of a Tuesday session followed by a
  Monday session in the browser's storage, the collection after \<open>loadSessions\<close> is that
  array, Tuesday first.
\<close>

theorem load_unsorted_counterexample:
  "run parseTable [Load (Some (Some unsortedText))] ([], sampleIds)
     = Some ([tuesdayRun, mondayLift], sampleIds)
   \<and> \<not> sorted_sessions [tuesdayRun, mondayLift]"
proof -
  have "asSessions [toJSON tuesdayRun, toJSON mondayLift] = Some [tuesdayRun, mondayLift]"
    using asSessions_toJSON [of "[tuesdayRun, mondayLift]"] by simp
  from normaliseAll_wellformed [OF this, of sampleIds] this
  have "run parseTable [Load (Some (Some unsortedText))] ([], sampleIds)
     = Some ([tuesdayRun, mondayLift], sampleIds)"
    by (simp add: loadSessions_def parseTable_def unsortedText_def)
  moreover have "\<not> sorted_sessions [tuesdayRun, mondayLift]"
    by (simp add: sorted_sessions_def session_key_def mondayLift_def tuesdayRun_def indexOf_DAYS)
  ultimately show ?thesis by blast
qed

section \<open>Mutators on an unknown identifier\<close>

lemma map_unknown_id:
  "i \<notin> session_id ` set prev \<Longrightarrow>
   map (\<lambda>session. if session_id session = i then f session else session) prev = prev"
  by (induction prev) auto

text \<open>
  Claim C9, as amended. For an identifier that no session of the collection has,
  \<open>handleDelete\<close> and \<open>toggleCompleted\<close> return the collection unchanged; \<open>handleSubmit\<close>
  with that (non-empty) editing identifier changes no session and returns the collection
  sorted by day and start, which is the collection itself when it was in order.
\<close>

theorem unknown_id_noop:
  assumes "i \<notin> session_id ` set prev"
  shows "handleDelete i prev = prev
   \<and> toggleCompleted i prev = prev
   \<and> (i \<noteq> [] \<longrightarrow> handleSubmit (Some i) draft e prev = (array_sort compareSessions prev, e))
   \<and> (i \<noteq> [] \<and> sorted_sessions prev \<longrightarrow> handleSubmit (Some i) draft e prev = (prev, e))"
proof -
  have del: "handleDelete i prev = prev"
    using assms by (auto simp: handleDelete_def filter_id_conv)
  have tog: "toggleCompleted i prev = prev"
    unfolding toggleCompleted_def using assms by (rule map_unknown_id)
  have sub: "handleSubmit (Some i) draft e prev = (array_sort compareSessions prev, e)" if "i \<noteq> []"
    using that map_unknown_id [OF assms] by (simp add: handleSubmit_def)
  have same: "array_sort compareSessions prev = prev" if "sorted_sessions prev"
    using that by (simp add: sort_compareSessions sorted_sessions_def sort_key_id_if_sorted)
  from del tog sub same show ?thesis by simp
qed

theorem unknown_id_noop_witness:
  "''zz'' \<notin> session_id ` set [mondayLift, tuesdayRun]
   \<and> handleDelete ''zz'' [mondayLift, tuesdayRun] = [mondayLift, tuesdayRun]
   \<and> toggleCompleted ''zz'' [mondayLift, tuesdayRun] = [mondayLift, tuesdayRun]
   \<and> sorted_sessions [mondayLift, tuesdayRun]
   \<and> handleSubmit (Some ''zz'') DEFAULT_SESSION sampleIds [mondayLift, tuesdayRun]
       = ([mondayLift, tuesdayRun], sampleIds)"
proof -
  have h: "''zz'' \<notin> session_id ` set [mondayLift, tuesdayRun]"
    by (simp add: mondayLift_def tuesdayRun_def)
  have srt: "sorted_sessions [mondayLift, tuesdayRun]"
    by (simp add: sorted_sessions_def session_key_def mondayLift_def tuesdayRun_def indexOf_DAYS)
  from h srt unknown_id_noop [OF h, of DEFAULT_SESSION sampleIds] show ?thesis by blast
qed

text \<open>
  Claim C9 as stated fails for the update: on a collection that is not in order (Tuesday
  before Monday), \<open>handleSubmit\<close> with an editing identifier that no session has returns
  the two sessions in the other order.
\<close>

theorem update_unknown_id_counterexample:
  "''zz'' \<notin> session_id ` set [tuesdayRun, mondayLift]
   \<and> fst (handleSubmit (Some ''zz'') DEFAULT_SESSION sampleIds [tuesdayRun, mondayLift])
       = [mondayLift, tuesdayRun]
   \<and> [mondayLift, tuesdayRun] \<noteq> [tuesdayRun, mondayLift]"
  by (simp add: handleSubmit_def array_sort_def compareSessions_def localeCompare_def
      indexOf_DAYS mondayLift_def tuesdayRun_def)

text \<open>The empty string as editing identifier is falsy: \<open>handleSubmit\<close> appends.\<close>

lemma update_empty_id_appends:
  "handleSubmit (Some []) DEFAULT_SESSION sampleIds [mondayLift]
     = ([mondayLift, makePayload [] DEFAULT_SESSION], sampleIds)"
  by (simp add: handleSubmit_def array_sort_def compareSessions_def localeCompare_def
      makePayload_def DEFAULT_SESSION_def mondayLift_def)

section \<open>Grouping by day\<close>

lemma byDay_buckets: "byDay xs = map (\<lambda>d. (d, sort_key start (filter (\<lambda>s. day s = d) xs))) DAYS"
  by (simp add: byDay_def sort_compareStart)

lemma day_in_DAYS: "d \<in> set DAYS"
  by (cases d) (simp_all add: DAYS_def)

lemma distinct_DAYS: "distinct DAYS"
  by (simp add: DAYS_def)

lemma sorted_index_DAYS: "sorted (map (indexOf DAYS) DAYS)"
  by (simp add: DAYS_def)

lemma sorted_pair_const:
  "sorted (map g xs) \<Longrightarrow> \<forall>x \<in> set xs. h x = c \<Longrightarrow> sorted (map (\<lambda>s. (h s, g s)) xs)"
  by (induction xs) (auto simp: less_eq_prod_def)

lemma buckets_sorted:
  "sorted (map f ds) \<Longrightarrow> distinct ds \<Longrightarrow> inj f \<Longrightarrow>
   sorted (map (\<lambda>s. (f (day s), start s))
     (concat (map (\<lambda>d. sort_key start (filter (\<lambda>s. day s = d) xs)) ds)))"
proof (induction ds)
  case Nil
  show ?case by simp
next
  case (Cons d ds)
  let ?B = "\<lambda>d. sort_key start (filter (\<lambda>s. day s = d) xs)"
  have here: "sorted (map (\<lambda>s. (f (day s), start s)) (?B d))"
    by (rule sorted_pair_const [where c = "f d"]) simp_all
  have rest: "sorted (map (\<lambda>s. (f (day s), start s)) (concat (map ?B ds)))"
    using Cons by simp
  have cross: "(f (day x), start x) \<le> (f (day y), start y)"
    if "x \<in> set (?B d)" "y \<in> set (concat (map ?B ds))" for x y
  proof -
    from that have dx: "day x = d" by simp
    from that obtain d' where d': "d' \<in> set ds" "day y = d'" by auto
    from Cons.prems d' have "f d \<le> f d'" "d \<noteq> d'" by auto
    with \<open>inj f\<close> have "f d < f d'" by (auto simp: inj_def order_le_less)
    with dx d' show ?thesis by (simp add: less_eq_prod_def)
  qed
  show ?case
    using here rest cross by (simp add: sorted_append del: sorted_sort_key) blast
qed


lemma session_key_eq: "(session_key a = session_key b) = (day a = day b \<and> start a = start b)"
  by (auto simp: session_key_def indexOf_DAYS_inj)

lemma filter_bucket_other:
  "d \<noteq> day k \<Longrightarrow>
   filter (\<lambda>x. day x = day k \<and> start x = start k) (sort_key start (filter (\<lambda>s. day s = d) xs)) = []"
  by (auto simp: filter_empty_conv)

lemma filter_bucket_same:
  "filter (\<lambda>x. day x = day k \<and> start x = start k) (sort_key start (filter (\<lambda>s. day s = day k) xs))
   = filter (\<lambda>x. day x = day k \<and> start x = start k) xs"
proof -
  let ?P = "\<lambda>x. day x = day k \<and> start x = start k"
  have "filter ?P (sort_key start (filter (\<lambda>s. day s = day k) xs))
        = sort_key start (filter ?P (filter (\<lambda>s. day s = day k) xs))"
    by (rule filter_sort)
  also have "filter ?P (filter (\<lambda>s. day s = day k) xs) = filter ?P xs"
    by (simp add: conj_commute cong: conj_cong)
  also have "sort_key start (filter ?P xs) = filter ?P xs"
  proof (rule sort_key_id_if_sorted)
    have "map start (filter ?P xs) = replicate (length (filter ?P xs)) (start k)"
      by (induction xs) simp_all
    then show "sorted (map start (filter ?P xs))" by (simp add: sorted_replicate)
  qed
  finally show ?thesis .
qed

lemma filter_buckets_absent:
  "day k \<notin> set ds \<Longrightarrow>
   filter (\<lambda>x. day x = day k \<and> start x = start k)
     (concat (map (\<lambda>d. sort_key start (filter (\<lambda>s. day s = d) xs)) ds)) = []"
  by (induction ds) (auto simp: filter_empty_conv)

lemma filter_buckets:
  "distinct ds \<Longrightarrow> day k \<in> set ds \<Longrightarrow>
   filter (\<lambda>x. day x = day k \<and> start x = start k)
     (concat (map (\<lambda>d. sort_key start (filter (\<lambda>s. day s = d) xs)) ds))
   = filter (\<lambda>x. day x = day k \<and> start x = start k) xs"
proof (induction ds)
  case Nil
  then show ?case by simp
next
  case (Cons d ds)
  show ?case
  proof (cases "d = day k")
    case True
    with Cons.prems have "day k \<notin> set ds" by simp
    with True show ?thesis
      by (simp add: filter_bucket_same filter_buckets_absent)
  next
    case False
    with Cons show ?thesis by (simp add: filter_bucket_other)
  qed
qed

lemma mset_buckets:
  "mset (concat (map (\<lambda>d. sort_key start (filter (\<lambda>s. day s = d) xs)) DAYS)) = mset xs"
proof (induction xs)
  case Nil
  show ?case by (simp add: DAYS_def)
next
  case (Cons x xs)
  then show ?case by (cases "day x") (simp_all add: DAYS_def)
qed

lemma concat_buckets:
  "concat (map (\<lambda>d. sort_key start (filter (\<lambda>s. day s = d) xs)) DAYS) = sort_key session_key xs"
proof (rule properties_for_sort_key [symmetric])
  let ?ys = "concat (map (\<lambda>d. sort_key start (filter (\<lambda>s. day s = d) xs)) DAYS)"
  show "mset ?ys = mset xs" by (rule mset_buckets)
  show "filter (\<lambda>x. session_key k = session_key x) ?ys = filter (\<lambda>x. session_key k = session_key x) xs" for k
    using filter_buckets [OF distinct_DAYS day_in_DAYS, of k xs]
    by (simp add: session_key_eq eq_commute [of "day k"] eq_commute [of "start k"])
  have "inj (indexOf DAYS)" by (simp add: inj_def indexOf_DAYS_inj)
  from buckets_sorted [OF sorted_index_DAYS distinct_DAYS this]
  show "sorted (map session_key ?ys)" by (simp add: session_key_def [abs_def])
qed

text \<open>
  Claim C5. For every collection, \<open>byDay\<close> has seven entries, one per weekday in the
  order Monday to Sunday, with the empty list for a day without sessions; each inner
  list holds the sessions of its day only and is sorted by start; every session of the
  input is in the bucket of its day and in no other, and the buckets together are a
  permutation of the input; their concatenation is the input sorted by day and start,
  as \<open>handleSubmit\<close> sorts it.
\<close>

theorem byDay_partition:
  "map fst (byDay sessions) = DAYS
   \<and> length (byDay sessions) = 7
   \<and> (\<forall>(d, ss) \<in> set (byDay sessions). sorted (map start ss) \<and> (\<forall>s \<in> set ss. day s = d))
   \<and> (\<forall>d. (\<forall>s \<in> set sessions. day s \<noteq> d) \<longrightarrow> (d, []) \<in> set (byDay sessions))
   \<and> (\<forall>s \<in> set sessions. \<forall>k < 7. (s \<in> set (snd (byDay sessions ! k))) = (DAYS ! k = day s))
   \<and> mset (concat (map snd (byDay sessions))) = mset sessions
   \<and> concat (map snd (byDay sessions)) = array_sort compareSessions sessions
   \<and> sorted_sessions (concat (map snd (byDay sessions)))"
proof -
  have days: "map fst (byDay sessions) = DAYS"
    by (simp add: byDay_def comp_def)
  have len: "length (byDay sessions) = 7"
    by (simp add: byDay_def DAYS_def)
  have inner: "\<forall>(d, ss) \<in> set (byDay sessions). sorted (map start ss) \<and> (\<forall>s \<in> set ss. day s = d)"
    by (auto simp: byDay_buckets)
  have empty: "\<forall>d. (\<forall>s \<in> set sessions. day s \<noteq> d) \<longrightarrow> (d, []) \<in> set (byDay sessions)"
  proof (intro allI impI)
    fix d assume "\<forall>s \<in> set sessions. day s \<noteq> d"
    then have "filter (\<lambda>s. day s = d) sessions = []" by (simp add: filter_empty_conv)
    then have "(d, []) = (\<lambda>d. (d, sort_key start (filter (\<lambda>s. day s = d) sessions))) d" by simp
    then show "(d, []) \<in> set (byDay sessions)"
      unfolding byDay_buckets set_map using day_in_DAYS [of d] by blast
  qed
  have once: "\<forall>s \<in> set sessions. \<forall>k < 7. (s \<in> set (snd (byDay sessions ! k))) = (DAYS ! k = day s)"
  proof (intro ballI allI impI)
    fix s and k :: nat assume s: "s \<in> set sessions" and k: "k < 7"
    then have "k < length DAYS" by (simp add: DAYS_def)
    then have "snd (byDay sessions ! k) = sort_key start (filter (\<lambda>s. day s = DAYS ! k) sessions)"
      by (simp add: byDay_buckets)
    with s show "(s \<in> set (snd (byDay sessions ! k))) = (DAYS ! k = day s)" by auto
  qed
  have cat: "concat (map snd (byDay sessions)) = sort_key session_key sessions"
    using concat_buckets [of sessions] by (simp add: byDay_buckets comp_def)
  have perm: "mset (concat (map snd (byDay sessions))) = mset sessions"
    by (simp add: cat)
  have srt: "concat (map snd (byDay sessions)) = array_sort compareSessions sessions"
    by (simp add: cat sort_compareSessions)
  have ord: "sorted_sessions (concat (map snd (byDay sessions)))"
    by (simp add: cat sorted_sessions_def)
  from days len inner empty once perm srt ord show ?thesis by blast
qed

theorem byDay_partition_witness:
  "Wednesday \<notin> day ` set [tuesdayStretch, tuesdayRun, mondayLift]
   \<and> (Wednesday, []) \<in> set (byDay [tuesdayStretch, tuesdayRun, mondayLift])
   \<and> map fst (byDay [tuesdayStretch, tuesdayRun, mondayLift]) = DAYS
   \<and> concat (map snd (byDay [tuesdayStretch, tuesdayRun, mondayLift]))
       = [mondayLift, tuesdayRun, tuesdayStretch]"
proof -
  have h: "\<forall>s \<in> set [tuesdayStretch, tuesdayRun, mondayLift]. day s \<noteq> Wednesday"
    by (simp add: tuesdayStretch_def tuesdayRun_def mondayLift_def)
  have srt: "array_sort compareSessions [tuesdayStretch, tuesdayRun, mondayLift]
       = [mondayLift, tuesdayRun, tuesdayStretch]"
    by (simp add: array_sort_def compareSessions_def localeCompare_def indexOf_DAYS
        tuesdayStretch_def tuesdayRun_def mondayLift_def)
  from h srt byDay_partition [of "[tuesdayStretch, tuesdayRun, mondayLift]"]
  show ?thesis by auto
qed

section \<open>The seeded week\<close>

lemma showNat_digit: "n < 10 \<Longrightarrow> showNat n = [''0123456789'' ! n]"
  by (simp add: showNat.simps)

lemma seeded_parts:
  "fst (suggestBalancedWeek e) =
     map (\<lambda>k. seedSession (SESSION_TEMPLATES ! k) k (e k)) [0, 1, 2, 3, 4, 5]
   \<and> snd (suggestBalancedWeek e) = (\<lambda>n. e (n + 6))"
  by (simp add: suggestBalancedWeek_def SESSION_TEMPLATES_def generateId_def numeral_eq_Suc)

lemma restOf_seedSession: "restOf (seedSession t k i) = restOf (seedSession t k j)"
  by (simp add: restOf_def seedSession_def)

text \<open>
  Claim C4, as amended. Any two calls of \<open>suggestBalancedWeek\<close> return the same six
  sessions in every field but the identifier (names, foci, intensities, days, start
  times, durations, locations, notes and completed flags); the identifiers are six fresh
  draws of \<open>generateId\<close> at each call.
\<close>

theorem seeded_week_up_to_ids:
  "map restOf (fst (suggestBalancedWeek e1)) = map restOf (fst (suggestBalancedWeek e2))
   \<and> length (fst (suggestBalancedWeek e1)) = 6
   \<and> map session_id (fst (suggestBalancedWeek e1)) = [e1 0, e1 1, e1 2, e1 3, e1 4, e1 5]
   \<and> snd (suggestBalancedWeek e1) = (\<lambda>n. e1 (n + 6))"
proof -
  have "map restOf (fst (suggestBalancedWeek e1)) = map restOf (fst (suggestBalancedWeek e2))"
    by (simp add: seeded_parts restOf_seedSession [of _ _ "e1 _" "e2 _"])
  moreover have "map session_id (fst (suggestBalancedWeek e1)) = [e1 0, e1 1, e1 2, e1 3, e1 4, e1 5]"
    by (simp add: seeded_parts seedSession_def)
  moreover have "length (fst (suggestBalancedWeek e1)) = 6"
    by (simp add: seeded_parts)
  ultimately show ?thesis by (simp add: seeded_parts)
qed

theorem seeded_week_up_to_ids_witness:
  "map restOf (fst (suggestBalancedWeek sampleIds))
     = map restOf (fst (suggestBalancedWeek (snd (suggestBalancedWeek sampleIds))))
   \<and> map session_id (fst (suggestBalancedWeek sampleIds))
       = [''id-0'', ''id-1'', ''id-2'', ''id-3'', ''id-4'', ''id-5'']"
  using seeded_week_up_to_ids [of sampleIds "snd (suggestBalancedWeek sampleIds)"]
  by (simp add: sampleIds_def showNat_digit)

text \<open>
  Claim C4 as stated fails on the identifiers: two calls in a row, on a random source
  whose draws differ, return weeks that differ.
\<close>

theorem seeded_ids_counterexample:
  "map session_id (fst (suggestBalancedWeek sampleIds))
     = [''id-0'', ''id-1'', ''id-2'', ''id-3'', ''id-4'', ''id-5'']
   \<and> map session_id (fst (suggestBalancedWeek (snd (suggestBalancedWeek sampleIds))))
     = [''id-6'', ''id-7'', ''id-8'', ''id-9'', ''id-10'', ''id-11'']
   \<and> fst (suggestBalancedWeek sampleIds)
     \<noteq> fst (suggestBalancedWeek (snd (suggestBalancedWeek sampleIds)))"
proof -
  have a: "map session_id (fst (suggestBalancedWeek sampleIds))
     = [''id-0'', ''id-1'', ''id-2'', ''id-3'', ''id-4'', ''id-5'']"
    by (simp add: seeded_parts seedSession_def sampleIds_def showNat_digit)
  have b: "map session_id (fst (suggestBalancedWeek (snd (suggestBalancedWeek sampleIds))))
     = [''id-6'', ''id-7'', ''id-8'', ''id-9'', ''id-10'', ''id-11'']"
    by (simp add: seeded_parts seedSession_def sampleIds_def showNat.simps)
  from a b have "map session_id (fst (suggestBalancedWeek sampleIds))
     \<noteq> map session_id (fst (suggestBalancedWeek (snd (suggestBalancedWeek sampleIds))))"
    by simp
  then have "fst (suggestBalancedWeek sampleIds)
     \<noteq> fst (suggestBalancedWeek (snd (suggestBalancedWeek sampleIds)))"
    by metis
  with a b show ?thesis by blast
qed

section \<open>Saving and loading\<close>

text \<open>
  Claim C3. When the collection to persist is empty, the persistence effect removes the
  stored key (the slot is left without a value) and does not reach \<open>saveSessions\<close>; a
  collection that is not empty is written as the serialised array.
\<close>

theorem persist_empty_clears:
  "persistEffect stringify (Some ls) [] = Some None
   \<and> (sessions \<noteq> [] \<longrightarrow>
        persistEffect stringify (Some ls) sessions
          = Some (Some (stringify (JArr (map toJSON sessions)))))"
  by (simp add: persistEffect_def saveSessions_def)

theorem persist_empty_clears_witness:
  "persistEffect stringifyTable (Some (Some sortedText)) [] = Some None
   \<and> [mondayLift, tuesdayRun] \<noteq> []
   \<and> persistEffect stringifyTable (Some (Some unsortedText)) [mondayLift, tuesdayRun]
       = Some (Some sortedText)"
  using persist_empty_clears [of stringifyTable "Some sortedText"]
    persist_empty_clears [of stringifyTable "Some unsortedText" "[mondayLift, tuesdayRun]"]
  by (simp add: stringifyTable_def)

text \<open>
  Claim C2. For every collection \<open>S\<close> of sessions, with \<open>JSON.parse\<close> reading back what
  \<open>JSON.stringify\<close> wrote for \<open>S\<close> (a text that is not empty): persisting \<open>S\<close> and then
  loading returns the objects of \<open>S\<close>, which read as the sessions of \<open>S\<close> whatever the
  order of their fields, and draws no identifier; persisting the empty collection and
  then loading returns the seeded week of six sessions.
\<close>

theorem save_load_roundtrip:
  assumes "parse (stringify (JArr (map toJSON S))) = Some (JArr (map toJSON S))"
    and "stringify (JArr (map toJSON S)) \<noteq> []"
  shows "(S \<noteq> [] \<longrightarrow>
            loadSessions parse (persistEffect stringify (Some ls) S) e = (map toJSON S, e)
            \<and> asSessions (fst (loadSessions parse (persistEffect stringify (Some ls) S) e)) = Some S)
   \<and> loadSessions parse (persistEffect stringify (Some ls) []) e = seededWeek e
   \<and> asSessions (fst (seededWeek e)) = Some (fst (suggestBalancedWeek e))
   \<and> length (fst (suggestBalancedWeek e)) = 6"
proof -
  have wf: "normaliseAll (map toJSON S) e = (Some (map toJSON S), e)"
    using asSessions_toJSON by (rule normaliseAll_wellformed)
  have full: "loadSessions parse (persistEffect stringify (Some ls) S) e = (map toJSON S, e)"
    if "S \<noteq> []"
    using that assms wf by (simp add: persistEffect_def saveSessions_def loadSessions_def)
  have empty: "loadSessions parse (persistEffect stringify (Some ls) []) e = seededWeek e"
    by (simp add: persistEffect_def loadSessions_def)
  have six: "length (fst (suggestBalancedWeek e)) = 6"
    by (simp add: seeded_parts)
  from full empty six show ?thesis
    by (simp add: asSessions_toJSON seededWeek_asSessions)
qed

theorem save_load_roundtrip_witness:
  "parseTable (stringifyTable (JArr (map toJSON [mondayLift, tuesdayRun])))
     = Some (JArr (map toJSON [mondayLift, tuesdayRun]))
   \<and> stringifyTable (JArr (map toJSON [mondayLift, tuesdayRun])) \<noteq> []
   \<and> [mondayLift, tuesdayRun] \<noteq> []
   \<and> asSessions (fst (loadSessions parseTable
         (persistEffect stringifyTable (Some None) [mondayLift, tuesdayRun]) sampleIds))
       = Some [mondayLift, tuesdayRun]
   \<and> loadSessions parseTable (persistEffect stringifyTable (Some (Some sortedText)) []) sampleIds
       = seededWeek sampleIds"
proof -
  have h1: "parseTable (stringifyTable (JArr (map toJSON [mondayLift, tuesdayRun])))
     = Some (JArr (map toJSON [mondayLift, tuesdayRun]))"
    by (simp add: parseTable_def stringifyTable_def sortedText_def unsortedText_def)
  have h2: "stringifyTable (JArr (map toJSON [mondayLift, tuesdayRun])) \<noteq> []"
    by (simp add: stringifyTable_def sortedText_def)
  have h3: "[mondayLift, tuesdayRun] \<noteq> []" by simp
  from h1 h2 h3
    save_load_roundtrip [where parse = parseTable and stringify = stringifyTable
      and S = "[mondayLift, tuesdayRun]" and ls = None and e = sampleIds, OF h1 h2]
    save_load_roundtrip [where parse = parseTable and stringify = stringifyTable
      and S = "[mondayLift, tuesdayRun]" and ls = "Some sortedText" and e = sampleIds, OF h1 h2]
  show ?thesis by blast
qed

section \<open>What \<open>loadSessions\<close> returns\<close>

lemma otherProps_update_id: "otherProps (AList.update ''id'' x al) = otherProps al"
  by (induction al) (simp_all add: otherProps_def)

lemma otherProps_update_completed: "otherProps (AList.update ''completed'' x al) = otherProps al"
  by (induction al) (simp_all add: otherProps_def)

lemma backfilled_update:
  assumes "if nullish p then (\<exists>g. i = JStr g) else Some i = p"
    and "propOf v ''id'' = p" and "propOf v ''completed'' = c"
  shows "backfilled v (JObj (AList.update ''completed'' (JBool (Boolean c))
                         (AList.update ''id'' i (spread v))))"
  using assms
  by (auto simp: backfilled_def update_conv' otherProps_update_id otherProps_update_completed
      split: if_splits)

lemma normalise_JNull: "normalise JNull e = None"
  by (simp add: normalise_def)

lemma normalise_nonnull:
  assumes "v \<noteq> JNull"
  shows "\<exists>y e'. normalise v e = Some (y, e') \<and> backfilled v y"
proof -
  from assms obtain p where p: "getProp v ''id'' = Inr p"
    by (cases v) simp_all
  from assms obtain c where c: "getProp v ''completed'' = Inr c"
    by (cases v) simp_all
  have pp: "propOf v ''id'' = p" and pc: "propOf v ''completed'' = c"
    using p c by (simp_all add: propOf_def)
  show ?thesis
  proof (cases "nullish p")
    case True
    then have "normalise v e =
      Some (JObj (AList.update ''completed'' (JBool (Boolean c))
                    (AList.update ''id'' (JStr (e 0)) (spread v))), \<lambda>n. e (Suc n))"
      using p c by (auto simp: normalise_def nullish_def generateId_def split: option.splits json.splits)
    moreover have "backfilled v (JObj (AList.update ''completed'' (JBool (Boolean c))
                    (AList.update ''id'' (JStr (e 0)) (spread v))))"
      using True by (intro backfilled_update [OF _ pp pc]) simp
    ultimately show ?thesis by simp
  next
    case False
    then obtain i where i: "p = Some i" "i \<noteq> JNull"
      by (auto simp: nullish_def split: option.splits json.splits)
    then have "normalise v e =
      Some (JObj (AList.update ''completed'' (JBool (Boolean c))
                    (AList.update ''id'' i (spread v))), e)"
      using p c by (cases i) (simp_all add: normalise_def)
    moreover have "backfilled v (JObj (AList.update ''completed'' (JBool (Boolean c))
                    (AList.update ''id'' i (spread v))))"
      using False i by (intro backfilled_update [OF _ pp pc]) simp
    ultimately show ?thesis by simp
  qed
qed

lemma normaliseAll_nonnull:
  "JNull \<notin> set xs \<Longrightarrow> \<exists>ys e'. normaliseAll xs e = (Some ys, e') \<and> list_all2 backfilled xs ys"
proof (induction xs arbitrary: e)
  case Nil
  show ?case by simp
next
  case (Cons x xs)
  then have "x \<noteq> JNull" by auto
  from normalise_nonnull [OF this, of e]
  obtain y e1 where y: "normalise x e = Some (y, e1)" "backfilled x y" by blast
  from Cons have "JNull \<notin> set xs" by simp
  from Cons.IH [OF this, of e1]
  obtain ys e2 where ys: "normaliseAll xs e1 = (Some ys, e2)" "list_all2 backfilled xs ys" by blast
  from y ys show ?case by simp
qed

lemma normaliseAll_null:
  "JNull \<in> set xs \<Longrightarrow> \<exists>e'. normaliseAll xs e = (None, e')"
proof (induction xs arbitrary: e)
  case Nil
  then show ?case by simp
next
  case (Cons x xs)
  show ?case
  proof (cases "x = JNull")
    case True
    then show ?thesis by (simp add: normalise_JNull)
  next
    case False
    from normalise_nonnull [OF this, of e]
    obtain y e1 where y: "normalise x e = Some (y, e1)" by blast
    from False Cons.prems have "JNull \<in> set xs" by auto
    from Cons.IH [OF this, of e1] obtain e2 where "normaliseAll xs e1 = (None, e2)" by blast
    with y show ?thesis by simp
  qed
qed

text \<open>
  Claim C10, as amended. \<open>loadSessions\<close> returns the seeded week when the stored value is
  absent or the empty string, when \<open>JSON.parse\<close> throws, when the parsed value is not an
  array, and when an element of the parsed array is \<open>null\<close> (the callback's TypeError is
  caught by the same \<open>catch\<close>); without a window it returns the empty collection. A text
  that parses to the empty array loads as the empty collection, not the seeded week of
  six. An array without a \<open>null\<close> element is returned element by element, each with its
  \<open>id\<close> kept, or drawn when missing or \<open>null\<close>, \<open>completed\<close> made a boolean, and the
  other properties as stored. Every case returns: nothing is raised.
\<close>

theorem loadSessions_cases:
  "loadSessions P None e = ([], e)
   \<and> loadSessions P (Some None) e = seededWeek e
   \<and> loadSessions P (Some (Some [])) e = seededWeek e
   \<and> (raw \<noteq> [] \<and> P raw = None \<longrightarrow> loadSessions P (Some (Some raw)) e = seededWeek e)
   \<and> (raw \<noteq> [] \<and> P raw = Some v \<and> (\<forall>xs. v \<noteq> JArr xs) \<longrightarrow>
         loadSessions P (Some (Some raw)) e = seededWeek e)
   \<and> (raw \<noteq> [] \<and> P raw = Some (JArr xs) \<and> JNull \<in> set xs \<longrightarrow>
         (\<exists>e'. loadSessions P (Some (Some raw)) e = seededWeek e'))
   \<and> (raw \<noteq> [] \<and> P raw = Some (JArr xs) \<and> JNull \<notin> set xs \<longrightarrow>
         (\<exists>ys e'. loadSessions P (Some (Some raw)) e = (ys, e') \<and> list_all2 backfilled xs ys))
   \<and> (raw \<noteq> [] \<and> P raw = Some (JArr []) \<longrightarrow> loadSessions P (Some (Some raw)) e = ([], e))
   \<and> length (fst (seededWeek e)) = 6"
proof -
  have nowin: "loadSessions P None e = ([], e)"
    by (simp add: loadSessions_def)
  have absent: "loadSessions P (Some None) e = seededWeek e"
    by (simp add: loadSessions_def)
  have empty: "loadSessions P (Some (Some [])) e = seededWeek e"
    by (simp add: loadSessions_def)
  have throws: "loadSessions P (Some (Some raw)) e = seededWeek e" if "raw \<noteq> []" "P raw = None"
    using that by (simp add: loadSessions_def)
  have other: "loadSessions P (Some (Some raw)) e = seededWeek e"
    if "raw \<noteq> []" "P raw = Some v" "\<forall>xs. v \<noteq> JArr xs"
    using that by (cases v) (simp_all add: loadSessions_def)
  have null: "\<exists>e'. loadSessions P (Some (Some raw)) e = seededWeek e'"
    if "raw \<noteq> []" "P raw = Some (JArr xs)" "JNull \<in> set xs"
  proof -
    from normaliseAll_null [OF that(3), of e] obtain e' where "normaliseAll xs e = (None, e')" by blast
    with that show ?thesis by (auto simp: loadSessions_def)
  qed
  have arr: "\<exists>ys e'. loadSessions P (Some (Some raw)) e = (ys, e') \<and> list_all2 backfilled xs ys"
    if "raw \<noteq> []" "P raw = Some (JArr xs)" "JNull \<notin> set xs"
  proof -
    from normaliseAll_nonnull [OF that(3), of e]
    obtain ys e' where "normaliseAll xs e = (Some ys, e')" "list_all2 backfilled xs ys" by blast
    with that show ?thesis by (auto simp: loadSessions_def)
  qed
  have nil: "loadSessions P (Some (Some raw)) e = ([], e)" if "raw \<noteq> []" "P raw = Some (JArr [])"
    using that by (simp add: loadSessions_def)
  have "length (fst (suggestBalancedWeek e)) = 6"
    by (simp add: seeded_parts)
  then have six: "length (fst (seededWeek e)) = 6"
    by (cases "suggestBalancedWeek e") (simp add: seededWeek_def)
  from nowin absent empty throws other null arr nil six show ?thesis by blast
qed

theorem loadSessions_cases_witness:
  \<open>''[{"day":"Monday","completed":1}]'' \<noteq> []
   \<and> parseTable ''[{"day":"Monday","completed":1}]''
       = Some (JArr [JObj [(''day'', JStr ''Monday''), (''completed'', JNum 1)]])
   \<and> JNull \<notin> set [JObj [(''day'', JStr ''Monday''), (''completed'', JNum 1)]]
   \<and> (\<exists>ys e'. loadSessions parseTable (Some (Some ''[{"day":"Monday","completed":1}]'')) sampleIds
          = (ys, e')
        \<and> list_all2 backfilled [JObj [(''day'', JStr ''Monday''), (''completed'', JNum 1)]] ys)
   \<and> loadSessions parseTable (Some (Some ''[{"day":"Monday","completed":1}]'')) sampleIds
       = ([JObj [(''day'', JStr ''Monday''), (''completed'', JBool True), (''id'', JStr ''id-0'')]],
          \<lambda>n. sampleIds (Suc n))
   \<and> ''[]'' \<noteq> [] \<and> parseTable ''[]'' = Some (JArr [])
   \<and> loadSessions parseTable (Some (Some ''[]'')) sampleIds = ([], sampleIds)\<close>
proof -
  let ?raw = \<open>''[{"day":"Monday","completed":1}]''\<close>
  let ?xs = "[JObj [(''day'', JStr ''Monday''), (''completed'', JNum 1)]]"
  have h1: "?raw \<noteq> []" by simp
  have h2: "parseTable ?raw = Some (JArr ?xs)"
    by (simp add: parseTable_def sortedText_def unsortedText_def)
  have h3: "JNull \<notin> set ?xs" by simp
  have ev: "loadSessions parseTable (Some (Some ?raw)) sampleIds
       = ([JObj [(''day'', JStr ''Monday''), (''completed'', JBool True), (''id'', JStr ''id-0'')]],
          \<lambda>n. sampleIds (Suc n))"
    using h2 by (simp add: loadSessions_def normalise_def generateId_def sampleIds_def showNat_digit)
  have k1: "''[]'' \<noteq> []" by simp
  have k2: "parseTable ''[]'' = Some (JArr [])"
    by (simp add: parseTable_def sortedText_def unsortedText_def)
  from h1 h2 h3 ev k1 k2
    loadSessions_cases [where P = parseTable and raw = ?raw and xs = ?xs and e = sampleIds]
    loadSessions_cases [where P = parseTable and raw = "''[]''" and e = sampleIds]
  show ?thesis by blast
qed

text \<open>
  Claim C10 as stated fails on arrays with a \<open>null\<close> element and on parsed values that
  are not arrays: the stored texts \<open>[null]\<close> and \<open>{}\<close> are present, not empty, and parse
  without an exception, and \<open>loadSessions\<close> returns the seeded week of six sessions.
\<close>

theorem load_null_element_counterexample:
  "parseTable ''[null]'' = Some (JArr [JNull])
   \<and> loadSessions parseTable (Some (Some ''[null]'')) sampleIds = seededWeek sampleIds
   \<and> parseTable ''{}'' = Some (JObj [])
   \<and> loadSessions parseTable (Some (Some ''{}'')) sampleIds = seededWeek sampleIds
   \<and> length (fst (seededWeek sampleIds)) = 6"
proof -
  have a: "parseTable ''[null]'' = Some (JArr [JNull])"
    by (simp add: parseTable_def sortedText_def unsortedText_def)
  have b: "parseTable ''{}'' = Some (JObj [])"
    by (simp add: parseTable_def sortedText_def unsortedText_def)
  have c: "loadSessions parseTable (Some (Some ''[null]'')) sampleIds = seededWeek sampleIds"
    using a by (simp add: loadSessions_def normalise_def)
  have d: "loadSessions parseTable (Some (Some ''{}'')) sampleIds = seededWeek sampleIds"
    using b by (simp add: loadSessions_def)
  have "length (fst (suggestBalancedWeek sampleIds)) = 6"
    by (simp add: seeded_parts)
  then have e: "length (fst (seededWeek sampleIds)) = 6"
    by (cases "suggestBalancedWeek sampleIds") (simp add: seededWeek_def)
  from a b c d e show ?thesis by blast
qed

section \<open>End time\<close>

lemma digitOf_bound: "digitOf c = Some d \<Longrightarrow> d < 10"
  by (auto simp: digitOf_def Let_def split: if_splits)

lemma local_minutes: "(1577836800000 + M * 60000) div 60000 = 26297280 + (M :: int)"
proof -
  have "1577836800000 + M * 60000 = (26297280 + M) * 60000" by simp
  then show ?thesis by simp
qed

lemma local_hours: "(1577836800000 + M * 60000) div 3600000 = (26297280 + (M :: int)) div 60"
proof -
  have "1577836800000 + M * 60000 = (26297280 + M) * 60000" by simp
  moreover have "(3600000 :: int) = 60 * 60000" by simp
  ultimately have "(1577836800000 + M * 60000) div 3600000 = ((26297280 + M) * 60000) div (60 * 60000)"
    by simp
  also have "\<dots> = (26297280 + M) div 60"
    by (rule div_mult_mult2) simp
  finally show ?thesis .
qed


lemma minute_of_local2: "(26297280 + M) mod 60 = (M mod 1440) mod (60 :: int)"
proof -
  have "(26297280 + M) mod 60 = (60 * 438288 + M) mod 60" by simp
  also have "\<dots> = M mod 60" by (simp only: mod_mult_self4)
  also have "\<dots> = (M mod 1440) mod 60" by (simp add: mod_mod_cancel)
  finally show ?thesis .
qed

lemma hour_of_local2: "((26297280 + M) div 60) mod 24 = (M mod 1440) div (60 :: int)"
proof -
  have "(26297280 + M) div 60 = (60 * 438288 + M) div 60" by simp
  also have "\<dots> = 438288 + M div 60" by simp
  finally have "((26297280 + M) div 60) mod 24 = (24 * 18262 + M div 60) mod 24" by simp
  also have "\<dots> = (M div 60) mod 24" by (simp only: mod_mult_self4)
  also have "\<dots> = (M mod 1440) div 60"
  proof -
    have "M mod (60 * 24) = 60 * (M div 60 mod 24) + M mod 60"
      by (rule zmod_zmult2_eq) simp
    then have "(M mod 1440) div 60 = (60 * (M div 60 mod 24) + M mod 60) div 60"
      by simp
    also have "\<dots> = M div 60 mod 24"
      by simp
    finally show ?thesis by simp
  qed
  finally show ?thesis .
qed


lemma minute_of_local:
  "((1577836800000 + M * 60000) div 60000) mod 60 = (M mod 1440) mod (60 :: int)"
  unfolding local_minutes by (rule minute_of_local2)

lemma hour_of_local:
  "((1577836800000 + M * 60000) div 3600000) mod 24 = (M mod 1440) div (60 :: int)"
  unfolding local_hours by (rule hour_of_local2)

lemma parseHHMM_bounds: "parseHHMM s = Some (h, m) \<Longrightarrow> h < 24 \<and> m < 60"
  by (auto simp: parseHHMM_def Let_def split: if_splits option.splits)


lemma getEndTime_in_range:
  assumes p: "parseHHMM s = Some (h, m)" and d: "0 \<le> dur"
    and o: "- 720 \<le> offset" "offset \<le> 840"
    and r: "jan1_2020 + (int h * 60 + int m - offset + dur) * 60000 \<le> maxTime"
  shows "getEndTime offset s dur = Some (wallClock h m dur)"
proof -
  define M where "M = int h * 60 + int m + dur"
  define t1 where "t1 = jan1_2020 + (int h * 60 + int m - offset) * 60000 + dur * 60000"
  have t1: "t1 = jan1_2020 + (int h * 60 + int m - offset + dur) * 60000"
    unfolding t1_def by (simp only: distrib_right add.assoc)
  have "- 840 \<le> int h * 60 + int m - offset + dur"
    using d o by linarith
  then have "- 840 * 60000 \<le> (int h * 60 + int m - offset + dur) * 60000"
    by (simp only: mult_le_cancel_right) simp
  then have "0 \<le> t1"
    unfolding t1 jan1_2020_def by linarith
  with r t1 have valid: "(maxTime < \<bar>t1\<bar>) = False" by simp
  have local: "t1 + offset * 60000 = 1577836800000 + M * 60000"
    unfolding t1_def M_def jan1_2020_def by (simp add: algebra_simps)
  have hh: "nat (((t1 + offset * 60000) div 3600000) mod 24) = nat (M mod 1440) div 60"
    unfolding local hour_of_local by (simp add: nat_div_distrib)
  have mm: "nat (((t1 + offset * 60000) div 60000) mod 60) = nat (M mod 1440) mod 60"
    unfolding local minute_of_local by (simp add: nat_mod_distrib)
  have "getEndTime offset s dur =
      (if maxTime < \<bar>t1\<bar> then Some ''Invalid Date''
       else Some (pad2 (nat (((t1 + offset * 60000) div 3600000) mod 24)) @ '':'' @
                  pad2 (nat (((t1 + offset * 60000) div 60000) mod 60))))"
    unfolding getEndTime_def t1_def Let_def p by (simp only: option.case prod.case)
  also have "\<dots> = Some (pad2 (nat (M mod 1440) div 60) @ '':'' @ pad2 (nat (M mod 1440) mod 60))"
    by (simp only: valid hh mm if_False)
  also have "\<dots> = Some (wallClock h m dur)"
    unfolding wallClock_def Let_def M_def ..
  finally show ?thesis .
qed

lemma getEndTime_out_of_range:
  assumes p: "parseHHMM s = Some (h, m)"
    and r: "maxTime < jan1_2020 + (int h * 60 + int m - offset + dur) * 60000"
  shows "getEndTime offset s dur = Some ''Invalid Date''"
proof -
  let ?t1 = "jan1_2020 + (int h * 60 + int m - offset) * 60000 + dur * 60000"
  have t1: "?t1 = jan1_2020 + (int h * 60 + int m - offset + dur) * 60000"
    by (simp add: algebra_simps)
  with r have "maxTime < \<bar>?t1\<bar>" by simp
  with p show ?thesis by (simp add: getEndTime_def Let_def)
qed

lemma parse_2330: "parseHHMM ''23:30'' = Some (23, 30)"
  by (simp add: parseHHMM_def digitOf_def)

lemma wallClock_2330: "wallClock 23 30 90 = ''01:00''"
  by (simp add: wallClock_def pad2_def showNat_digit)

text \<open>
  Claim C8, as amended. For every valid \<open>HH:MM\<close> start string and every non-negative
  integer duration whose end instant is within the range of \<open>Date\<close>, in a host zone
  with a fixed offset from UTC (between 12 hours west and 14 hours east), \<open>getEndTime\<close>
  returns the time of day \<open>duration\<close> minutes after the start, modulo 1440 minutes;
  for a duration that takes the instant beyond the range it returns the string
  \<open>Invalid Date\<close>; it never throws. \<open>getEndTime("23:30", 90)\<close> is \<open>01:00\<close>.
\<close>

theorem getEndTime_wallClock:
  assumes "parseHHMM s = Some (h, m)" and "0 \<le> dur" and "- 720 \<le> offset" and "offset \<le> 840"
  shows "(jan1_2020 + (int h * 60 + int m - offset + dur) * 60000 \<le> maxTime \<longrightarrow>
            getEndTime offset s dur = Some (wallClock h m dur))
   \<and> (maxTime < jan1_2020 + (int h * 60 + int m - offset + dur) * 60000 \<longrightarrow>
            getEndTime offset s dur = Some ''Invalid Date'')
   \<and> getEndTime offset ''23:30'' 90 = Some ''01:00''"
proof -
  have "jan1_2020 + (int 23 * 60 + int 30 - offset + 90) * 60000 \<le> maxTime"
    using assms(3) by (simp add: jan1_2020_def maxTime_def)
  from getEndTime_in_range [OF parse_2330 _ assms(3,4) this]
  have "getEndTime offset ''23:30'' 90 = Some ''01:00''"
    by (simp add: wallClock_2330)
  with getEndTime_in_range [OF assms] getEndTime_out_of_range [OF assms(1)]
  show ?thesis by blast
qed

theorem getEndTime_wallClock_witness:
  "parseHHMM ''22:45'' = Some (22, 45) \<and> (0::int) \<le> 200 \<and> (- 720 :: int) \<le> 60 \<and> (60 :: int) \<le> 840
   \<and> jan1_2020 + (int 22 * 60 + int 45 - 60 + 200) * 60000 \<le> maxTime
   \<and> getEndTime 60 ''22:45'' 200 = Some ''02:05''
   \<and> getEndTime 60 ''23:30'' 90 = Some ''01:00''"
proof -
  have h1: "parseHHMM ''22:45'' = Some (22, 45)" by (simp add: parseHHMM_def digitOf_def)
  have h2: "(0::int) \<le> 200" by simp
  have h3: "(- 720 :: int) \<le> 60" by simp
  have h4: "(60 :: int) \<le> 840" by simp
  have h5: "jan1_2020 + (int 22 * 60 + int 45 - 60 + 200) * 60000 \<le> maxTime"
    by (simp add: jan1_2020_def maxTime_def)
  have w: "wallClock 22 45 200 = ''02:05''"
    by (simp add: wallClock_def pad2_def showNat_digit)
  from h1 h2 h3 h4 h5 w getEndTime_wallClock [OF h1 h2 h3 h4] show ?thesis by simp
qed

text \<open>
  Claim C8 as stated fails for large durations: with 200000000000 minutes the instant is
  beyond the range of \<open>Date\<close>, and \<open>getEndTime\<close> returns \<open>Invalid Date\<close> where the
  wall clock, modulo 1440 minutes, reads \<open>20:50\<close>.
\<close>

theorem getEndTime_invalid_counterexample:
  "parseHHMM ''23:30'' = Some (23, 30)
   \<and> getEndTime 0 ''23:30'' 200000000000 = Some ''Invalid Date''
   \<and> wallClock 23 30 200000000000 = ''20:50''"
  by (simp add: getEndTime_def parseHHMM_def digitOf_def jan1_2020_def maxTime_def
      wallClock_def pad2_def showNat.simps)

section \<open>Completion rate\<close>

text \<open>What the rounding to a double keeps: signs, and bounds that are integers below
  \<open>2^53\<close>.\<close>

lemma pow2_powi: "pow2 k = 2 powi k"
  by (simp add: pow2_def power_int_def inverse_eq_divide power_one_over)

lemma pow2_pos: "0 < pow2 k"
  by (simp add: pow2_powi)

lemma pow2_add: "pow2 (a + b) = pow2 a * pow2 b"
  by (simp add: pow2_powi power_int_add)

lemma pow2_mono: "a \<le> b \<Longrightarrow> pow2 a \<le> pow2 b"
  by (simp add: pow2_powi power_int_increasing)

lemma pow2_nat: "0 \<le> k \<Longrightarrow> pow2 k = 2 ^ nat k"
  by (simp add: pow2_def)

lemma ilog2_lower:
  assumes "0 < x"
  shows "pow2 (ilog2 x) \<le> x"
proof -
  obtain p q where pq: "quotient_of x = (p, q)" by (cases "quotient_of x")
  then have x: "x = of_int p / of_int q" and q: "0 < q"
    by (simp_all add: quotient_of_div quotient_of_denom_pos)
  from assms x q have p: "0 < p" by (simp add: zero_less_divide_iff)
  define d where "d = bitlen p - bitlen q"
  show ?thesis
  proof (cases "pow2 d \<le> x")
    case True
    then show ?thesis by (simp add: ilog2_def pq d_def Let_def)
  next
    case False
    from bitlen_bounds [OF p] have lo: "2 ^ nat (bitlen p - 1) \<le> p" by simp
    from bitlen_bounds [OF q] have hi: "q < 2 ^ nat (bitlen q)" by simp
    from p have bp: "1 \<le> bitlen p" by (simp add: bitlen_alt_def)
    have bq: "0 \<le> bitlen q" by (rule bitlen_nonneg)
    have a: "pow2 (bitlen p - 1) \<le> of_int p"
      using lo bp by (simp add: pow2_nat)
    have b: "(of_int q :: rat) \<le> pow2 (bitlen q)"
      using hi bq by (simp add: pow2_nat)
    have c: "pow2 (d - 1) * pow2 (bitlen q) = pow2 (bitlen p - 1)"
      by (simp add: d_def pow2_add [symmetric])
    have "pow2 (d - 1) * of_int q \<le> pow2 (d - 1) * pow2 (bitlen q)"
      using b pow2_pos [of "d - 1"] by (intro mult_left_mono) simp_all
    also have "\<dots> \<le> of_int p" using a c by simp
    finally have "pow2 (d - 1) * of_int q \<le> of_int p" .
    then have "pow2 (d - 1) \<le> x"
      using q by (simp add: x pos_le_divide_eq)
    with False show ?thesis by (simp add: ilog2_def pq d_def Let_def)
  qed
qed

lemma ilog2_upper:
  assumes "0 < x"
  shows "x < pow2 (ilog2 x + 1)"
proof -
  obtain p q where pq: "quotient_of x = (p, q)" by (cases "quotient_of x")
  then have x: "x = of_int p / of_int q" and q: "0 < q"
    by (simp_all add: quotient_of_div quotient_of_denom_pos)
  from assms x q have p: "0 < p" by (simp add: zero_less_divide_iff)
  define d where "d = bitlen p - bitlen q"
  show ?thesis
  proof (cases "pow2 d \<le> x")
    case True
    from bitlen_bounds [OF p] have hi: "p < 2 ^ nat (bitlen p)" by simp
    from bitlen_bounds [OF q] have lo: "2 ^ nat (bitlen q - 1) \<le> q" by simp
    from q have bq: "1 \<le> bitlen q" by (simp add: bitlen_alt_def)
    have bp: "0 \<le> bitlen p" by (rule bitlen_nonneg)
    have a: "(of_int p :: rat) < pow2 (bitlen p)"
      using hi bp by (simp add: pow2_nat)
    have b: "pow2 (bitlen q - 1) \<le> of_int q"
      using lo bq by (simp add: pow2_nat)
    have c: "pow2 (d + 1) * pow2 (bitlen q - 1) = pow2 (bitlen p)"
      by (simp add: d_def pow2_add [symmetric])
    have "pow2 (d + 1) * pow2 (bitlen q - 1) \<le> pow2 (d + 1) * of_int q"
      using b pow2_pos [of "d + 1"] by (intro mult_left_mono) simp_all
    with a c have "of_int p < pow2 (d + 1) * of_int q" by simp
    then have "x < pow2 (d + 1)"
      using q by (simp add: x pos_divide_less_eq)
    with True show ?thesis by (simp add: ilog2_def pq d_def Let_def)
  next
    case False
    then show ?thesis by (simp add: ilog2_def pq d_def Let_def)
  qed
qed

lemma round_half_even_le: "y \<le> of_int N \<Longrightarrow> round_half_even y \<le> N"
proof -
  assume y: "y \<le> of_int N"
  then have f: "\<lfloor>y\<rfloor> \<le> N" by (simp add: floor_le_iff)
  show ?thesis
  proof (cases "\<lfloor>y\<rfloor> = N")
    case True
    with y have "y = of_int N" using of_int_floor_le [of y] by simp
    then show ?thesis by (simp add: round_half_even_def)
  next
    case False
    with f have "\<lfloor>y\<rfloor> + 1 \<le> N" by simp
    then show ?thesis by (simp add: round_half_even_def Let_def)
  qed
qed

lemma round_half_even_nonneg: "0 \<le> y \<Longrightarrow> 0 \<le> round_half_even y"
  by (simp add: round_half_even_def Let_def)

lemma fl_nonneg: "0 \<le> x \<Longrightarrow> 0 \<le> fl x"
  using pow2_pos [of "ilog2 \<bar>x\<bar> - 52"]
  by (simp add: fl_def Let_def round_half_even_nonneg less_imp_le)

lemma fl_le_int:
  assumes x: "0 < x" and le: "x \<le> of_int B" and B: "B < 2 ^ 53"
  shows "fl x \<le> of_int B"
proof -
  define e where "e = ilog2 x"
  define u where "u = pow2 (e - 52)"
  have u: "0 < u" by (simp add: u_def pow2_pos)
  have "pow2 e \<le> x" unfolding e_def using x by (rule ilog2_lower)
  have "(of_int B :: rat) < 2 ^ 53" using B by simp
  with le \<open>pow2 e \<le> x\<close> have "pow2 e < pow2 53"
    by (simp add: pow2_nat [of 53])
  then have e: "e \<le> 52"
    using pow2_mono [of 53 e] by (cases "53 \<le> e") simp_all
  have inv: "1 / u = of_int (2 ^ nat (52 - e))"
  proof -
    have "u * pow2 (52 - e) = pow2 0" unfolding u_def by (simp add: pow2_add [symmetric])
    then have "u * pow2 (52 - e) = 1" by (simp add: pow2_def)
    with u have "1 / u = pow2 (52 - e)" by (simp add: field_simps)
    with e show ?thesis by (simp add: pow2_nat)
  qed
  have "x / u \<le> of_int B / u" using le u by (simp add: divide_right_mono)
  also have "of_int B / u = of_int (B * 2 ^ nat (52 - e))"
  proof -
    have "of_int B / u = of_int B * (1 / u)" by simp
    also have "\<dots> = of_int B * of_int (2 ^ nat (52 - e))" by (simp only: inv)
    finally show ?thesis by simp
  qed
  finally have "round_half_even (x / u) \<le> B * 2 ^ nat (52 - e)"
    by (rule round_half_even_le)
  then have "of_int (round_half_even (x / u)) * u \<le> of_int (B * 2 ^ nat (52 - e)) * u"
    using u by (simp only: of_int_le_iff mult_le_cancel_right) simp
  also have "of_int (B * 2 ^ nat (52 - e)) * u = of_int B * ((1 / u) * u)"
    by (simp add: inv)
  also have "\<dots> = of_int B" using u by simp
  finally show ?thesis
    using x by (simp add: fl_def Let_def e_def u_def)
qed

lemma fl_1: "fl 1 = 1"
  by code_simp

lemma fl_100: "fl 100 = 100"
  by code_simp

lemma Math_round_100: "Math_round 100 = 100"
  by code_simp

text \<open>The rate is 0 for the empty collection, 100 when every session of a non-empty
  collection is completed, and always between 0 and 100.\<close>

lemma completionRate_empty: "completionRate [] = 0"
  by (simp add: completionRate_def)

lemma completionRate_all_completed:
  assumes "sessions \<noteq> []" and "\<forall>s \<in> set sessions. completed s"
  shows "completionRate sessions = 100"
proof -
  from assms(2) have "filter completed sessions = sessions" by (simp add: filter_id_conv)
  with assms(1) show ?thesis
    by (simp add: completionRate_def fl_1 fl_100 Math_round_100)
qed

lemma completionRate_range: "0 \<le> completionRate sessions \<and> completionRate sessions \<le> 100"
proof (cases "sessions = []")
  case True
  then show ?thesis by (simp add: completionRate_def)
next
  case False
  define c where "c = length (filter completed sessions)"
  define n where "n = length sessions"
  define q :: rat where "q = of_nat c / of_nat n"
  have n: "0 < n" using False by (simp add: n_def)
  have cn: "c \<le> n" by (simp add: c_def n_def)
  have q0: "0 \<le> q" by (simp add: q_def)
  have q1: "q \<le> 1" using n cn by (simp add: q_def)
  have f1: "fl q \<le> 1"
  proof (cases "q = 0")
    case True
    then show ?thesis by (simp add: fl_def)
  next
    case False
    with q0 have "0 < q" by simp
    from fl_le_int [OF this, of 1] q1 show ?thesis by simp
  qed
  have f0: "0 \<le> fl q" using q0 by (rule fl_nonneg)
  have y0: "0 \<le> fl q * 100" using f0 by simp
  have y1: "fl q * 100 \<le> 100" using f1 by simp
  have g1: "fl (fl q * 100) \<le> 100"
  proof (cases "fl q * 100 = 0")
    case True
    then show ?thesis by (simp add: fl_def)
  next
    case False
    with y0 have "0 < fl q * 100" by simp
    from fl_le_int [OF this, of 100] y1 show ?thesis by simp
  qed
  have g0: "0 \<le> fl (fl q * 100)" using y0 by (rule fl_nonneg)
  have "completionRate sessions = Math_round (fl (fl q * 100))"
    using False by (simp add: completionRate_def q_def c_def n_def)
  moreover have "0 \<le> Math_round (fl (fl q * 100))"
    using g0 by (simp add: Math_round_def)
  moreover have "Math_round (fl (fl q * 100)) \<le> 100"
    using g1 by (simp add: Math_round_def floor_le_iff)
  ultimately show ?thesis by simp
qed

text \<open>The rate of forty sessions, twenty-three of them completed.\<close>

lemma forty_counts:
  "length fortySessions = 40 \<and> length (filter completed fortySessions) = 23"
  by (simp add: fortySessions_def upt_rec [of _ "numeral _"] upt_rec [of _ "Suc _"])

lemma fl_23_40: "fl (23 / 40) = 2589569785738035 / 4503599627370496"
  by code_simp

lemma fl_575: "fl (2589569785738035 / 4503599627370496 * 100) = 8092405580431359 / 140737488355328"
  by code_simp

lemma round_below_half: "Math_round (8092405580431359 / 140737488355328) = 57"
  by code_simp

lemma product_first: "Math_round (fl (100 * 23 / 40)) = 58"
  by code_simp

text \<open>
  Claim C7 says that the completion rate equals \<open>round(100 * completed / all)\<close>. With
  23 of 40 sessions completed that is \<open>round(57.5) = 58\<close>. The page computes
  \<open>Math.round((23 / 40) * 100)\<close>: the quotient is rounded to the double just below
  \<open>0.575\<close>, its product with 100 to the double just below \<open>57.5\<close>, and the rate shown
  is 57. Multiplying before dividing, \<open>Math.round(100 * 23 / 40)\<close>, gives 58.
\<close>

theorem completionRate_forty:
  "length fortySessions = 40
   \<and> length (filter completed fortySessions) = 23
   \<and> completionRate fortySessions = 57
   \<and> Math_round (100 * 23 / 40) = 58
   \<and> Math_round (fl (100 * 23 / 40)) = 58"
proof -
  have "completionRate fortySessions = Math_round (fl (fl (23 / 40) * 100))"
    using forty_counts by (simp add: completionRate_def)
  also have "\<dots> = 57"
    unfolding fl_23_40 fl_575 by (rule round_below_half)
  finally have "completionRate fortySessions = 57" .
  moreover have "Math_round (100 * 23 / 40) = 58"
    by (simp add: Math_round_def)
  ultimately show ?thesis using forty_counts product_first by simp
qed

section \<open>Volume per focus\<close>

text \<open>Sums of non-negative integers that stay below \<open>2^53\<close> are exact in doubles.\<close>

lemma round_half_even_of_int: "round_half_even (of_int m) = m"
  by (simp add: round_half_even_def)

lemma fl_of_int_exact:
  assumes k0: "0 \<le> k" and k1: "k < 2 ^ 53"
  shows "fl (of_int k) = of_int k"
proof (cases "k = 0")
  case True
  then show ?thesis by (simp add: fl_def)
next
  case False
  with k0 have x: "0 < (of_int k :: rat)" by simp
  define e where "e = ilog2 (of_int k)"
  define u where "u = pow2 (e - 52)"
  have u: "0 < u" by (simp add: u_def pow2_pos)
  have lo: "pow2 e \<le> of_int k" unfolding e_def using x by (rule ilog2_lower)
  have "(of_int k :: rat) < 2 ^ 53" using k1 by simp
  with lo have "pow2 e < pow2 53" by (simp add: pow2_nat [of 53])
  then have e: "e \<le> 52"
    using pow2_mono [of 53 e] by (cases "53 \<le> e") simp_all
  have inv: "1 / u = of_int (2 ^ nat (52 - e))"
  proof -
    have "u * pow2 (52 - e) = pow2 0" unfolding u_def by (simp add: pow2_add [symmetric])
    then have "u * pow2 (52 - e) = 1" by (simp add: pow2_def)
    with u have "1 / u = pow2 (52 - e)" by (simp add: field_simps)
    with e show ?thesis by (simp add: pow2_nat)
  qed
  have "of_int k / u = of_int k * (1 / u)" by simp
  also have "\<dots> = of_int k * of_int (2 ^ nat (52 - e))" by (simp only: inv)
  finally have q: "of_int k / u = of_int (k * 2 ^ nat (52 - e))" by simp
  have "of_int (round_half_even (of_int k / u)) * u = of_int (k * 2 ^ nat (52 - e)) * u"
    by (simp only: q round_half_even_of_int)
  also have "\<dots> = of_int k * ((1 / u) * u)" by (simp add: inv)
  also have "\<dots> = of_int k" using u by simp
  finally show ?thesis
    using x by (simp add: fl_def Let_def e_def u_def)
qed

lemma foldl_fl_exact:
  "0 \<le> a \<Longrightarrow> \<forall>s \<in> set xs. 0 \<le> duration s \<Longrightarrow> a + sum_list (map duration xs) < 2 ^ 53 \<Longrightarrow>
   foldl (\<lambda>sum session. fl (sum + of_int (duration session))) (of_int a) xs
     = of_int (a + sum_list (map duration xs))"
proof (induction xs arbitrary: a)
  case Nil
  show ?case by simp
next
  case (Cons x xs)
  have d: "0 \<le> duration x" using Cons.prems(2) by simp
  have rest: "0 \<le> sum_list (map duration xs)"
    using Cons.prems(2) by (intro sum_list_nonneg) auto
  have a': "0 \<le> a + duration x" using Cons.prems(1) d by simp
  have small: "a + duration x < 2 ^ 53" using Cons.prems(3) rest by simp
  have step: "fl (of_int a + of_int (duration x)) = of_int (a + duration x)"
    using fl_of_int_exact [OF a' small] by simp
  have "a + duration x + sum_list (map duration xs) < 2 ^ 53"
    using Cons.prems(3) by (simp add: add.assoc)
  from Cons.IH [OF a' _ this] Cons.prems(2) step show ?case
    by (simp add: add.assoc)
qed

lemma sumDuration_exact:
  assumes "\<forall>s \<in> set xs. 0 \<le> duration s" and "sum_list (map duration xs) < 2 ^ 53"
  shows "sumDuration xs = of_int (sum_list (map duration xs))"
  using foldl_fl_exact [of 0 xs] assms by (simp add: sumDuration_def)

lemma sum_list_filter_le:
  "\<forall>s \<in> set xs. 0 \<le> duration s \<Longrightarrow>
   sum_list (map duration (filter P xs)) \<le> sum_list (map duration xs)"
  by (induction xs) auto

lemma sumDuration_filter_exact:
  assumes "\<forall>s \<in> set xs. 0 \<le> duration s" and "sum_list (map duration xs) < 2 ^ 53"
  shows "sumDuration (filter P xs) = of_int (sum_list (map duration (filter P xs)))"
proof (rule sumDuration_exact)
  show "\<forall>s \<in> set (filter P xs). 0 \<le> duration s" using assms(1) by simp
  show "sum_list (map duration (filter P xs)) < 2 ^ 53"
    using sum_list_filter_le [OF assms(1), of P] assms(2) by simp
qed

lemma sum_by_focus:
  "(\<Sum>f\<leftarrow>TRAINING_FOCI. sum_list (map duration (filter (\<lambda>s. focus s = f) xs))) = sum_list (map duration xs)"
proof (induction xs)
  case Nil
  show ?case by (simp add: TRAINING_FOCI_def)
next
  case (Cons x xs)
  then show ?case by (cases "focus x") (simp_all add: TRAINING_FOCI_def)
qed

text \<open>
  Claim C6, as amended. For every collection, \<open>focusVolume\<close> has one entry per focus in
  the order of \<open>TRAINING_FOCI\<close>, six in all, with totals 0 for a focus without sessions,
  and \<open>weeklyMinutes\<close> of the empty collection is 0. When the durations are non-negative
  integers whose sum is below \<open>2^53\<close>, the totals of the six entries add up to
  \<open>weeklyMinutes\<close>, which is the sum of the durations of the collection.
\<close>

theorem focusVolume_totals:
  "map fe_focus (focusVolume sessions) = TRAINING_FOCI
   \<and> length (focusVolume sessions) = 6
   \<and> (\<forall>entry \<in> set (focusVolume sessions).
         (\<forall>s \<in> set sessions. focus s \<noteq> fe_focus entry) \<longrightarrow> fe_total entry = 0 \<and> fe_completed entry = 0)
   \<and> weeklyMinutes [] = 0
   \<and> ((\<forall>s \<in> set sessions. 0 \<le> duration s) \<and> sum_list (map duration sessions) < 2 ^ 53 \<longrightarrow>
         sum_list (map fe_total (focusVolume sessions)) = weeklyMinutes sessions
         \<and> weeklyMinutes sessions = of_int (sum_list (map duration sessions)))"
proof -
  have names: "map fe_focus (focusVolume sessions) = TRAINING_FOCI"
    by (simp add: focusVolume_def comp_def)
  have len: "length (focusVolume sessions) = 6"
    by (simp add: focusVolume_def TRAINING_FOCI_def)
  have zero: "\<forall>entry \<in> set (focusVolume sessions).
      (\<forall>s \<in> set sessions. focus s \<noteq> fe_focus entry) \<longrightarrow> fe_total entry = 0 \<and> fe_completed entry = 0"
  proof (intro ballI impI)
    fix entry assume e: "entry \<in> set (focusVolume sessions)"
      and none: "\<forall>s \<in> set sessions. focus s \<noteq> fe_focus entry"
    from e obtain f where f: "entry = \<lparr>fe_focus = f,
         fe_total = sumDuration (filter (\<lambda>session. focus session = f) sessions),
         fe_completed = sumDuration (filter (\<lambda>session. focus session = f \<and> completed session) sessions)\<rparr>"
      by (auto simp: focusVolume_def)
    from none f have "filter (\<lambda>session. focus session = f) sessions = []"
      and "filter (\<lambda>session. focus session = f \<and> completed session) sessions = []"
      by (auto simp: filter_empty_conv)
    with f show "fe_total entry = 0 \<and> fe_completed entry = 0"
      by (simp add: sumDuration_def)
  qed
  have empty: "weeklyMinutes [] = 0"
    by (simp add: weeklyMinutes_def sumDuration_def)
  have exact: "sum_list (map fe_total (focusVolume sessions)) = weeklyMinutes sessions
         \<and> weeklyMinutes sessions = of_int (sum_list (map duration sessions))"
    if nn: "\<forall>s \<in> set sessions. 0 \<le> duration s" and small: "sum_list (map duration sessions) < 2 ^ 53"
  proof -
    have week: "weeklyMinutes sessions = of_int (sum_list (map duration sessions))"
      unfolding weeklyMinutes_def using nn small by (rule sumDuration_exact)
    have "map fe_total (focusVolume sessions)
        = map (\<lambda>f. rat_of_int (sum_list (map duration (filter (\<lambda>s. focus s = f) sessions)))) TRAINING_FOCI"
      by (simp add: focusVolume_def comp_def sumDuration_filter_exact [OF nn small])
    then have "sum_list (map fe_total (focusVolume sessions))
        = rat_of_int (\<Sum>f\<leftarrow>TRAINING_FOCI. sum_list (map duration (filter (\<lambda>s. focus s = f) sessions)))"
      by (simp add: TRAINING_FOCI_def)
    also have "\<dots> = of_int (sum_list (map duration sessions))"
      by (simp only: sum_by_focus)
    finally show ?thesis using week by simp
  qed
  from names len zero empty exact show ?thesis by blast
qed

theorem focusVolume_totals_witness:
  "list_all (\<lambda>s. 0 \<le> duration s) [mondayLift, tuesdayRun, tuesdayStretch]
   \<and> sum_list (map duration [mondayLift, tuesdayRun, tuesdayStretch]) < 2 ^ 53
   \<and> Recovery \<notin> focus ` set [mondayLift, tuesdayRun, tuesdayStretch]
   \<and> fe_focus (focusVolume [mondayLift, tuesdayRun, tuesdayStretch] ! 5) = Recovery
   \<and> fe_total (focusVolume [mondayLift, tuesdayRun, tuesdayStretch] ! 5) = 0
   \<and> sum_list (map fe_total (focusVolume [mondayLift, tuesdayRun, tuesdayStretch])) = 180
   \<and> weeklyMinutes [mondayLift, tuesdayRun, tuesdayStretch] = 180"
proof -
  let ?xs = "[mondayLift, tuesdayRun, tuesdayStretch]"
  have nn: "\<forall>s \<in> set ?xs. 0 \<le> duration s"
    by (simp add: tuesdayStretch_def tuesdayRun_def mondayLift_def)
  have d: "sum_list (map duration ?xs) = 180"
    by (simp add: tuesdayStretch_def tuesdayRun_def mondayLift_def)
  have h: "\<forall>s \<in> set ?xs. focus s \<noteq> Recovery"
    by (simp add: tuesdayStretch_def tuesdayRun_def mondayLift_def)
  have f: "fe_focus (focusVolume ?xs ! 5) = Recovery"
    by (simp add: focusVolume_def TRAINING_FOCI_def)
  have m: "focusVolume ?xs ! 5 \<in> set (focusVolume ?xs)"
    by (rule nth_mem) (simp add: focusVolume_def TRAINING_FOCI_def)
  from nn d h f m focusVolume_totals [of ?xs]
  show ?thesis by (auto simp: list_all_iff)
qed

text \<open>The additions of the page on durations 1, \<open>2^53\<close> and 1.\<close>

lemma fl_one: "fl (0 + 1) = 1"
  by code_simp

lemma fl_big: "fl (0 + 9007199254740992) = 9007199254740992"
  by code_simp

lemma fl_one_big: "fl (1 + 9007199254740992) = 9007199254740992"
  by code_simp

lemma fl_big_one: "fl (9007199254740992 + 1) = 9007199254740992"
  by code_simp

text \<open>
  Claim C6 as stated fails where a sum leaves the integers that doubles hold: for three
  sessions of three foci lasting 1, \<open>2^53\<close> and 1 minutes, \<open>weeklyMinutes\<close> adds
  \<open>((0 + 1) + 2^53) + 1\<close> in doubles, which is \<open>2^53\<close>, and the three totals 1, \<open>2^53\<close>
  and 1 add up to \<open>2^53 + 2\<close>.
\<close>

theorem focusVolume_rounding_counterexample:
  "map duration longSessions = [1, 9007199254740992, 1]
   \<and> weeklyMinutes longSessions = 9007199254740992
   \<and> sum_list (map fe_total (focusVolume longSessions)) = 9007199254740994
   \<and> sum_list (map fe_total (focusVolume longSessions)) \<noteq> weeklyMinutes longSessions"
proof -
  have d: "map duration longSessions = [1, 9007199254740992, 1]"
    by (simp add: longSessions_def)
  have w: "weeklyMinutes longSessions = 9007199254740992"
    using fl_one fl_one_big fl_big_one
    by (simp add: weeklyMinutes_def sumDuration_def longSessions_def)
  have t: "sum_list (map fe_total (focusVolume longSessions)) = 9007199254740994"
    using fl_one fl_big
    by (simp add: focusVolume_def TRAINING_FOCI_def sumDuration_def longSessions_def
        mondayLift_def tuesdayRun_def tuesdayStretch_def)
  from d w t show ?thesis by simp
qed

end
